theory Spec2Isabelle
  imports Main
begin

section \<open>The tree node store (treenode.h, treenode.cpp)\<close>

text \<open>
  A \<open>QVariant\<close> holds one column value. The tree examples only store strings; a
  default-constructed variant is the invalid one.
\<close>

datatype QVariant = QVariant_Invalid | QVariant_String string

text \<open>
  Nodes live in the process heap and refer to each other by address: the children of a
  node are owned through \<open>std::unique_ptr\<close>, the parent is a raw back pointer.
  Address \<open>0\<close> is the null pointer; address \<open>a > 0\<close> names cell \<open>a - 1\<close> of the heap,
  and a cell holding \<open>None\<close> is a freed node.
\<close>

type_synonym addr = nat

abbreviation (input) nullptr :: addr where
  "nullptr \<equiv> 0"

record TreeNode =
  m_childNodes :: "addr list"
  m_itemData :: "QVariant list"
  m_parentNode :: addr

type_synonym heap = "TreeNode option list"

text \<open>
  What the C++ leaves undefined (a null or dangling dereference, an iterator outside
  the vector) and what \<open>Q_ASSERT\<close> stops are results of their own. \<open>Diverges\<close> is
  the result of a recursion that ran out of fuel.
\<close>

datatype error = UndefinedBehaviour | AssertionFailed | Diverges

text \<open>\<open>Q_ASSERT\<close> is checked in a debug build and compiled out in a release build.\<close>

datatype build = Debug | Release

definition Q_ASSERT :: "build \<Rightarrow> bool \<Rightarrow> (error + 'a) \<Rightarrow> error + 'a" where
  "Q_ASSERT b cond k = (if b = Debug \<and> \<not> cond then Inl AssertionFailed else k)"

definition deref :: "heap \<Rightarrow> addr \<Rightarrow> TreeNode option" where
  "deref h a = (if a = nullptr \<or> length h < a then None else h ! (a - 1))"

definition store :: "heap \<Rightarrow> addr \<Rightarrow> TreeNode \<Rightarrow> heap" where
  "store h a n = (if a = nullptr then h else h[a - 1 := Some n])"

text \<open>\<open>std::make_unique<TreeNode>(data, parent)\<close>: the constructor, on a fresh cell.\<close>

definition make_unique_TreeNode :: "heap \<Rightarrow> QVariant list \<Rightarrow> addr \<Rightarrow> heap \<times> addr" where
  "make_unique_TreeNode h dat parent =
     (h @ [Some \<lparr>m_childNodes = [], m_itemData = dat, m_parentNode = parent\<rparr>],
      Suc (length h))"

text \<open>\<open>appendChild\<close> pushes the pointer and writes nothing into the child.\<close>

definition TreeNode_appendChild :: "heap \<Rightarrow> addr \<Rightarrow> addr \<Rightarrow> error + heap" where
  "TreeNode_appendChild h this child =
     (case deref h this of
        None \<Rightarrow> Inl UndefinedBehaviour
      | Some n \<Rightarrow> Inr (store h this (n\<lparr>m_childNodes := m_childNodes n @ [child]\<rparr>)))"

text \<open>
  \<open>insertChild\<close> first sets the child's back pointer, then inserts before
  \<open>begin() + pos\<close>; the iterator is defined for \<open>0 \<le> pos \<le> size\<close> only.
\<close>

definition TreeNode_insertChild :: "heap \<Rightarrow> addr \<Rightarrow> int \<Rightarrow> addr \<Rightarrow> error + heap" where
  "TreeNode_insertChild h this pos child =
     (case deref h child of
        None \<Rightarrow> Inl UndefinedBehaviour
      | Some c \<Rightarrow>
          (let h1 = store h child (c\<lparr>m_parentNode := this\<rparr>) in
           case deref h1 this of
             None \<Rightarrow> Inl UndefinedBehaviour
           | Some n \<Rightarrow>
               if 0 \<le> pos \<and> pos \<le> int (length (m_childNodes n))
               then Inr (store h1 this
                      (n\<lparr>m_childNodes :=
                           take (nat pos) (m_childNodes n) @ child # drop (nat pos) (m_childNodes n)\<rparr>))
               else Inl UndefinedBehaviour))"

text \<open>
  \<open>takeChild\<close> moves the pointer at \<open>begin() + row\<close> out of the vector, erases the
  slot and hands the node to the caller; the node itself is not written.
\<close>

definition TreeNode_takeChild :: "heap \<Rightarrow> addr \<Rightarrow> int \<Rightarrow> error + (heap \<times> addr)" where
  "TreeNode_takeChild h this row =
     (case deref h this of
        None \<Rightarrow> Inl UndefinedBehaviour
      | Some n \<Rightarrow>
          if 0 \<le> row \<and> row < int (length (m_childNodes n))
          then Inr (store h this
                      (n\<lparr>m_childNodes :=
                           take (nat row) (m_childNodes n) @ drop (Suc (nat row)) (m_childNodes n)\<rparr>),
                    m_childNodes n ! nat row)
          else Inl UndefinedBehaviour)"

definition TreeNode_childCount :: "heap \<Rightarrow> addr \<Rightarrow> error + int" where
  "TreeNode_childCount h this =
     (case deref h this of
        None \<Rightarrow> Inl UndefinedBehaviour
      | Some n \<Rightarrow> Inr (int (length (m_childNodes n))))"

definition TreeNode_child :: "heap \<Rightarrow> addr \<Rightarrow> int \<Rightarrow> error + addr" where
  "TreeNode_child h this row =
     (case deref h this of
        None \<Rightarrow> Inl UndefinedBehaviour
      | Some n \<Rightarrow>
          Inr (if row \<ge> 0 \<and> row < int (length (m_childNodes n))
               then m_childNodes n ! nat row else nullptr))"

definition TreeNode_columnCount :: "heap \<Rightarrow> addr \<Rightarrow> error + int" where
  "TreeNode_columnCount h this =
     (case deref h this of
        None \<Rightarrow> Inl UndefinedBehaviour
      | Some n \<Rightarrow> Inr (int (length (m_itemData n))))"

text \<open>\<open>QList::value(i)\<close> is the element at \<open>i\<close>, or a default-constructed value out of range.\<close>

definition QList_value :: "QVariant list \<Rightarrow> int \<Rightarrow> QVariant" where
  "QList_value xs i = (if 0 \<le> i \<and> i < int (length xs) then xs ! nat i else QVariant_Invalid)"

definition TreeNode_data :: "heap \<Rightarrow> addr \<Rightarrow> int \<Rightarrow> error + QVariant" where
  "TreeNode_data h this column =
     (case deref h this of
        None \<Rightarrow> Inl UndefinedBehaviour
      | Some n \<Rightarrow> Inr (QList_value (m_itemData n) column))"

definition TreeNode_parentNode :: "heap \<Rightarrow> addr \<Rightarrow> error + addr" where
  "TreeNode_parentNode h this =
     (case deref h this of
        None \<Rightarrow> Inl UndefinedBehaviour
      | Some n \<Rightarrow> Inr (m_parentNode n))"

text \<open>
  \<open>std::find_if\<close> as a position: the index of the first element satisfying the
  predicate, the length of the list (the end iterator) when there is none.
\<close>

fun find_if :: "('a \<Rightarrow> bool) \<Rightarrow> 'a list \<Rightarrow> nat" where
  "find_if P [] = 0"
| "find_if P (x # xs) = (if P x then 0 else Suc (find_if P xs))"

text \<open>
  \<open>row\<close> searches the parent's children for \<open>this\<close>. When the search fails the
  debug build stops at \<open>Q_ASSERT(false)\<close> and the release build returns \<open>-1\<close>.
\<close>

definition TreeNode_row :: "build \<Rightarrow> heap \<Rightarrow> addr \<Rightarrow> error + int" where
  "TreeNode_row b h this =
     (case deref h this of
        None \<Rightarrow> Inl UndefinedBehaviour
      | Some n \<Rightarrow>
          if m_parentNode n = nullptr then Inr 0
          else
            (case deref h (m_parentNode n) of
               None \<Rightarrow> Inl UndefinedBehaviour
             | Some p \<Rightarrow>
                 (let it = find_if (\<lambda>treeNode. treeNode = this) (m_childNodes p) in
                  if it \<noteq> length (m_childNodes p) then Inr (int it)
                  else Q_ASSERT b False (Inr (- 1)))))"

subsection \<open>Client programs over the store\<close>

text \<open>
  A client of the store constructs nodes and calls the three mutators on nodes it can
  reach. \<open>held\<close> lists the \<open>unique_ptr\<close>s in the client's hands: a constructed or
  detached node is added, a node moved into \<open>appendChild\<close> or \<open>insertChild\<close> is
  removed.
\<close>

datatype tree_op =
    MakeNode "QVariant list" addr
  | AppendChild addr addr
  | InsertChild addr int addr
  | TakeChild addr int

record client =
  heap :: heap
  held :: "addr list"

fun step_op :: "client \<Rightarrow> tree_op \<Rightarrow> error + client" where
  "step_op s (MakeNode dat parent) =
     (case make_unique_TreeNode (heap s) dat parent of
        (h', a) \<Rightarrow> Inr \<lparr>heap = h', held = a # held s\<rparr>)"
| "step_op s (AppendChild this child) =
     (case TreeNode_appendChild (heap s) this child of
        Inl e \<Rightarrow> Inl e
      | Inr h' \<Rightarrow> Inr \<lparr>heap = h', held = removeAll child (held s)\<rparr>)"
| "step_op s (InsertChild this pos child) =
     (case TreeNode_insertChild (heap s) this pos child of
        Inl e \<Rightarrow> Inl e
      | Inr h' \<Rightarrow> Inr \<lparr>heap = h', held = removeAll child (held s)\<rparr>)"
| "step_op s (TakeChild this row) =
     (case TreeNode_takeChild (heap s) this row of
        Inl e \<Rightarrow> Inl e
      | Inr (h', c) \<Rightarrow> Inr \<lparr>heap = h', held = c # held s\<rparr>)"

fun run_ops :: "client \<Rightarrow> tree_op list \<Rightarrow> error + client" where
  "run_ops s [] = Inr s"
| "run_ops s (x # xs) = (case step_op s x of Inl e \<Rightarrow> Inl e | Inr s' \<Rightarrow> run_ops s' xs)"

text \<open>How often a program appends to, inserts into and detaches from one node.\<close>

fun appends_on :: "addr \<Rightarrow> tree_op list \<Rightarrow> nat" where
  "appends_on n [] = 0"
| "appends_on n (AppendChild this c # xs) = (if this = n then 1 else 0) + appends_on n xs"
| "appends_on n (x # xs) = appends_on n xs"

fun inserts_on :: "addr \<Rightarrow> tree_op list \<Rightarrow> nat" where
  "inserts_on n [] = 0"
| "inserts_on n (InsertChild this pos c # xs) = (if this = n then 1 else 0) + inserts_on n xs"
| "inserts_on n (x # xs) = inserts_on n xs"

fun takes_on :: "addr \<Rightarrow> tree_op list \<Rightarrow> nat" where
  "takes_on n [] = 0"
| "takes_on n (TakeChild this row # xs) = (if this = n then 1 else 0) + takes_on n xs"
| "takes_on n (x # xs) = takes_on n xs"

text \<open>
  Example programs, with the addresses written out. The store starts with a root
  without children at address \<open>1\<close>. \<open>build_ABC\<close> constructs the rows "A", "B" and "C"
  with the root as parent and appends them (as \<open>setupModelData\<close> does); they get the
  addresses \<open>2\<close>, \<open>3\<close> and \<open>4\<close>. \<open>move_B_first\<close> detaches the child at position \<open>1\<close>
  of node \<open>1\<close> and inserts node \<open>3\<close> at position \<open>0\<close> of node \<open>1\<close>.
\<close>

definition empty_root :: client where
  "empty_root =
     \<lparr>heap = fst (make_unique_TreeNode []
                     [QVariant_String ''Title'', QVariant_String ''Summary''] nullptr),
      held = []\<rparr>"

definition build_ABC :: "tree_op list" where
  "build_ABC =
     [MakeNode [QVariant_String ''A''] 1, AppendChild 1 2,
      MakeNode [QVariant_String ''B''] 1, AppendChild 1 3,
      MakeNode [QVariant_String ''C''] 1, AppendChild 1 4]"

definition move_B_first :: "tree_op list" where
  "move_B_first = [TakeChild 1 1, InsertChild 1 0 3]"

subsection \<open>The end-to-end scenario\<close>

text \<open>
  \<open>parent->appendChild(std::make_unique<TreeNode>(columnData, parent))\<close>, the way
  \<open>setupModelData\<close> adds a row: the node is constructed with the receiving node as
  parent and appended to it.
\<close>

definition append_new :: "heap \<Rightarrow> addr \<Rightarrow> QVariant list \<Rightarrow> error + heap \<times> addr" where
  "append_new h parent dat =
     (case make_unique_TreeNode h dat parent of
        (h1, node) \<Rightarrow>
          (case TreeNode_appendChild h1 parent node of
             Inl e \<Rightarrow> Inl e
           | Inr h2 \<Rightarrow> Inr (h2, node)))"

text \<open>
  The scenario of the spec, as a caller of the store writes it, every step working on
  what the calls before it returned: a root is constructed; "A", "B" and "C" are
  appended in this order; \<open>takeChild\<close> is called on the root with the position of
  "B", which is its \<open>row()\<close>; the node that \<open>takeChild\<close> returned is passed to
  \<open>insertChild\<close> at position \<open>0\<close>. The outcome records the final store, the nodes,
  the position that was used and the node that \<open>takeChild\<close> returned.
\<close>

record outcome =
  o_heap :: heap
  o_root :: addr
  o_A :: addr
  o_B :: addr
  o_C :: addr
  o_position :: int
  o_returned :: addr

definition scenario :: "build \<Rightarrow> error + outcome" where
  "scenario b =
     (case make_unique_TreeNode [] [QVariant_String ''Title'', QVariant_String ''Summary''] nullptr of
        (h0, root) \<Rightarrow>
     (case append_new h0 root [QVariant_String ''A''] of Inl e \<Rightarrow> Inl e | Inr (h1, nodeA) \<Rightarrow>
     (case append_new h1 root [QVariant_String ''B''] of Inl e \<Rightarrow> Inl e | Inr (h2, nodeB) \<Rightarrow>
     (case append_new h2 root [QVariant_String ''C''] of Inl e \<Rightarrow> Inl e | Inr (h3, nodeC) \<Rightarrow>
     (case TreeNode_row b h3 nodeB of Inl e \<Rightarrow> Inl e | Inr position \<Rightarrow>
     (case TreeNode_takeChild h3 root position of Inl e \<Rightarrow> Inl e | Inr (h4, returned) \<Rightarrow>
     (case TreeNode_insertChild h4 root 0 returned of Inl e \<Rightarrow> Inl e | Inr h5 \<Rightarrow>
        Inr \<lparr>o_heap = h5, o_root = root, o_A = nodeA, o_B = nodeB, o_C = nodeC,
             o_position = position, o_returned = returned\<rparr>)))))))"

subsection \<open>Destruction and cloning of subtrees\<close>

text \<open>
  A \<open>unique_ptr\<close> that goes out of scope deletes its node; the implicit destructor
  of \<open>TreeNode\<close> destroys the vector of children first, which deletes every child in
  turn, and then the node's own storage is released. Deleting the null pointer does
  nothing. The recursion follows the heap, so it carries fuel: \<open>Suc fuel\<close> levels of
  the tree can be visited.
\<close>

definition release :: "heap \<Rightarrow> addr \<Rightarrow> heap" where
  "release h a = (if a = nullptr then h else h[a - 1 := None])"

fun delete_children :: "(heap \<Rightarrow> addr \<Rightarrow> error + heap) \<Rightarrow> heap \<Rightarrow> addr list \<Rightarrow> error + heap" where
  "delete_children f h [] = Inr h"
| "delete_children f h (c # cs) =
     (case f h c of Inl e \<Rightarrow> Inl e | Inr h1 \<Rightarrow> delete_children f h1 cs)"

primrec TreeNode_delete :: "nat \<Rightarrow> heap \<Rightarrow> addr \<Rightarrow> error + heap" where
  "TreeNode_delete 0 = (\<lambda>h this. if this = nullptr then Inr h else Inl Diverges)"
| "TreeNode_delete (Suc fuel) = (\<lambda>h this.
     if this = nullptr then Inr h
     else
       (case deref h this of
          None \<Rightarrow> Inl UndefinedBehaviour
        | Some n \<Rightarrow>
            (case delete_children (TreeNode_delete fuel) h (m_childNodes n) of
               Inl e \<Rightarrow> Inl e
             | Inr h1 \<Rightarrow> Inr (release h1 this))))"

text \<open>
  Modelled from the spec: \<open>TreeNode::clone\<close>, which \<open>TreeModel::dropMimeData\<close> calls
  and whose source (the treenode.cpp of the second example) is not part of the
  repository snapshot. The spec says that a drop clones the subtree of each source
  node, and that a node's parent back-reference matches its owning container: the
  copy of a node carries the same column values, its children are the copies of the
  node's children in the same order, each constructed with the copy as parent and
  appended to it, and the copy of the top node has no parent until it is inserted.
  Only fresh cells are written.
\<close>

fun clone_children ::
  "(heap \<Rightarrow> addr \<Rightarrow> addr \<Rightarrow> error + heap \<times> addr) \<Rightarrow> heap \<Rightarrow> addr \<Rightarrow> addr list \<Rightarrow> error + heap" where
  "clone_children f h copy [] = Inr h"
| "clone_children f h copy (c # cs) =
     (case f h c copy of
        Inl e \<Rightarrow> Inl e
      | Inr (h1, c') \<Rightarrow>
          (case TreeNode_appendChild h1 copy c' of
             Inl e \<Rightarrow> Inl e
           | Inr h2 \<Rightarrow> clone_children f h2 copy cs))"

primrec clone_under :: "nat \<Rightarrow> heap \<Rightarrow> addr \<Rightarrow> addr \<Rightarrow> error + heap \<times> addr" where
  "clone_under 0 = (\<lambda>h this parent. Inl Diverges)"
| "clone_under (Suc fuel) = (\<lambda>h this parent.
     case deref h this of
       None \<Rightarrow> Inl UndefinedBehaviour
     | Some n \<Rightarrow>
         (case make_unique_TreeNode h (m_itemData n) parent of
            (h1, copy) \<Rightarrow>
              (case clone_children (clone_under fuel) h1 copy (m_childNodes n) of
                 Inl e \<Rightarrow> Inl e
               | Inr h2 \<Rightarrow> Inr (h2, copy))))"

definition TreeNode_clone :: "nat \<Rightarrow> heap \<Rightarrow> addr \<Rightarrow> error + heap \<times> addr" where
  "TreeNode_clone fuel h this = clone_under fuel h this nullptr"

section \<open>Model indexes, mime data and data streams (the toolkit side)\<close>

text \<open>
  A \<open>QModelIndex\<close> is a row, a column, the internal pointer and the model it belongs
  to; only whether there is a model matters here. \<open>QModelIndex{}\<close> is the invalid
  index.
\<close>

record QModelIndex =
  idx_row :: int
  idx_column :: int
  idx_ptr :: addr
  idx_model :: bool

definition QModelIndex_invalid :: QModelIndex where
  "QModelIndex_invalid = \<lparr>idx_row = - 1, idx_column = - 1, idx_ptr = nullptr, idx_model = False\<rparr>"

definition isValid :: "QModelIndex \<Rightarrow> bool" where
  "isValid index \<longleftrightarrow> idx_row index \<ge> 0 \<and> idx_column index \<ge> 0 \<and> idx_model index"

definition createIndex :: "int \<Rightarrow> int \<Rightarrow> addr \<Rightarrow> QModelIndex" where
  "createIndex row column p = \<lparr>idx_row = row, idx_column = column, idx_ptr = p, idx_model = True\<rparr>"

datatype DropAction = CopyAction | MoveAction | LinkAction | IgnoreAction

text \<open>
  A \<open>QMimeData\<close> maps format names to payloads. A payload is what a \<open>QDataStream\<close>
  wrote: the sequence of the values streamed with \<open><<\<close>, read back one value at a
  time with \<open>>>\<close>. The byte layout of a value is not modelled; every handler is given
  payloads of the value type its own format carries. \<open>data\<close> of a format that is not
  there is the empty payload.
\<close>

type_synonym 'a QMimeData = "(string \<times> 'a list) list"

definition hasFormat :: "'a QMimeData \<Rightarrow> string \<Rightarrow> bool" where
  "hasFormat mimeData fmt \<longleftrightarrow> map_of mimeData fmt \<noteq> None"

definition mime_data :: "'a QMimeData \<Rightarrow> string \<Rightarrow> 'a list" where
  "mime_data mimeData fmt = (case map_of mimeData fmt of None \<Rightarrow> [] | Some d \<Rightarrow> d)"

definition atEnd :: "'a list \<Rightarrow> bool" where
  "atEnd stream \<longleftrightarrow> stream = []"

text \<open>Reading past the end of a stream gives the zero value and leaves the stream at its end.\<close>

definition read_int :: "int list \<Rightarrow> int \<times> int list" where
  "read_int stream = (case stream of [] \<Rightarrow> (0, []) | x # rest \<Rightarrow> (x, rest))"

definition read_QString :: "string list \<Rightarrow> string \<times> string list" where
  "read_QString stream = (case stream of [] \<Rightarrow> ([], []) | x # rest \<Rightarrow> (x, rest))"

text \<open>
  A \<open>QList\<close> is streamed as its length followed by its elements; a list that the
  stream cannot deliver in full is read as the empty list.
\<close>

definition read_QList :: "int list \<Rightarrow> int list \<times> int list" where
  "read_QList stream =
     (case read_int stream of
        (n, rest) \<Rightarrow>
          if int (length rest) < n then ([], [])
          else (take (nat n) rest, drop (nat n) rest))"

section \<open>The tree model adapter (treemodel.h, treemodel.cpp)\<close>

text \<open>
  The model owns the root node. Its state is the process heap (which also holds the
  nodes of every other model of the process), the root pointer, and the trace of what
  the views attached to it observe: the begin and end notifications, and between
  them the mutations of child sequences that the model performs.
\<close>

datatype event =
    BeginInsertRows QModelIndex int int
  | EndInsertRows
  | BeginRemoveRows QModelIndex int int
  | EndRemoveRows
  | ChildInserted addr int
  | ChildTaken addr int

record TreeModel =
  mem :: heap
  rootNode :: addr
  trace :: "event list"

definition TreeModel_nodeForIndex :: "TreeModel \<Rightarrow> QModelIndex \<Rightarrow> addr" where
  "TreeModel_nodeForIndex m index = (if isValid index then idx_ptr index else rootNode m)"

definition TreeModel_rowCount :: "TreeModel \<Rightarrow> QModelIndex \<Rightarrow> error + int" where
  "TreeModel_rowCount m parent =
     (if idx_column parent > 0 then Inr 0
      else TreeNode_childCount (mem m) (if isValid parent then idx_ptr parent else rootNode m))"

definition TreeModel_columnCount :: "TreeModel \<Rightarrow> QModelIndex \<Rightarrow> error + int" where
  "TreeModel_columnCount m parent =
     (if isValid parent then TreeNode_columnCount (mem m) (idx_ptr parent)
      else TreeNode_columnCount (mem m) (rootNode m))"

text \<open>\<open>QAbstractItemModel::hasIndex\<close>; \<open>&&\<close> does not evaluate its right side after a false left side.\<close>

definition hasIndex :: "TreeModel \<Rightarrow> int \<Rightarrow> int \<Rightarrow> QModelIndex \<Rightarrow> error + bool" where
  "hasIndex m row column parent =
     (if row < 0 \<or> column < 0 then Inr False
      else
        (case TreeModel_rowCount m parent of
           Inl e \<Rightarrow> Inl e
         | Inr rc \<Rightarrow>
             if \<not> row < rc then Inr False
             else
               (case TreeModel_columnCount m parent of
                  Inl e \<Rightarrow> Inl e
                | Inr cc \<Rightarrow> Inr (column < cc))))"

definition TreeModel_index :: "TreeModel \<Rightarrow> int \<Rightarrow> int \<Rightarrow> QModelIndex \<Rightarrow> error + QModelIndex" where
  "TreeModel_index m row column parent =
     (case hasIndex m row column parent of
        Inl e \<Rightarrow> Inl e
      | Inr ok \<Rightarrow>
          if \<not> ok then Inr QModelIndex_invalid
          else
            (case TreeNode_child (mem m) (if isValid parent then idx_ptr parent else rootNode m) row of
               Inl e \<Rightarrow> Inl e
             | Inr childNode \<Rightarrow>
                 Inr (if childNode \<noteq> nullptr then createIndex row column childNode
                      else QModelIndex_invalid)))"

definition TreeModel_indexForItem :: "build \<Rightarrow> TreeModel \<Rightarrow> addr \<Rightarrow> error + QModelIndex" where
  "TreeModel_indexForItem b m node =
     (if node \<noteq> rootNode m
      then (case TreeNode_row b (mem m) node of
              Inl e \<Rightarrow> Inl e
            | Inr r \<Rightarrow> Inr (createIndex r 0 node))
      else Inr QModelIndex_invalid)"

definition TreeModel_parent :: "build \<Rightarrow> TreeModel \<Rightarrow> QModelIndex \<Rightarrow> error + QModelIndex" where
  "TreeModel_parent b m index =
     (if \<not> isValid index then Inr QModelIndex_invalid
      else
        (case TreeNode_parentNode (mem m) (idx_ptr index) of
           Inl e \<Rightarrow> Inl e
         | Inr parentNode \<Rightarrow> TreeModel_indexForItem b m parentNode))"

text \<open>
  The toolkit's \<open>QModelIndex::parent\<close>, \<open>QAbstractItemModel::sibling\<close> and
  \<open>QModelIndex::siblingAtColumn\<close>, which go through the model's \<open>parent\<close> and
  \<open>index\<close>, and \<open>QAbstractItemModel::checkIndex\<close> with its default options.
\<close>

definition QModelIndex_parent :: "build \<Rightarrow> TreeModel \<Rightarrow> QModelIndex \<Rightarrow> error + QModelIndex" where
  "QModelIndex_parent b m index =
     (if idx_model index then TreeModel_parent b m index else Inr QModelIndex_invalid)"

definition sibling :: "build \<Rightarrow> TreeModel \<Rightarrow> int \<Rightarrow> int \<Rightarrow> QModelIndex \<Rightarrow> error + QModelIndex" where
  "sibling b m row column index =
     (if row = idx_row index \<and> column = idx_column index then Inr index
      else
        (case TreeModel_parent b m index of
           Inl e \<Rightarrow> Inl e
         | Inr p \<Rightarrow> TreeModel_index m row column p))"

definition siblingAtColumn :: "build \<Rightarrow> TreeModel \<Rightarrow> QModelIndex \<Rightarrow> int \<Rightarrow> error + QModelIndex" where
  "siblingAtColumn b m index column =
     (if idx_model index
      then (if idx_column index = column then Inr index
            else sibling b m (idx_row index) column index)
      else Inr QModelIndex_invalid)"

definition checkIndex :: "build \<Rightarrow> TreeModel \<Rightarrow> QModelIndex \<Rightarrow> error + bool" where
  "checkIndex b m index =
     (if \<not> isValid index then Inr True
      else
        (case QModelIndex_parent b m index of
           Inl e \<Rightarrow> Inl e
         | Inr parentIndex \<Rightarrow>
             (case TreeModel_rowCount m parentIndex of
                Inl e \<Rightarrow> Inl e
              | Inr rc \<Rightarrow>
                  if idx_row index \<ge> rc then Inr False
                  else
                    (case TreeModel_columnCount m parentIndex of
                       Inl e \<Rightarrow> Inl e
                     | Inr cc \<Rightarrow>
                         if idx_column index \<ge> cc then Inr False
                         else
                           (case TreeModel_index m (idx_row index) (idx_column index) parentIndex of
                              Inl e \<Rightarrow> Inl e
                            | Inr i \<Rightarrow> Inr (index = i))))))"

text \<open>\<open>Q_ASSERT\<close> of a condition whose evaluation can itself go wrong.\<close>

definition Q_ASSERT_eval :: "build \<Rightarrow> (error + bool) \<Rightarrow> (error + 'a) \<Rightarrow> error + 'a" where
  "Q_ASSERT_eval b cond k =
     (if b = Debug
      then (case cond of Inl e \<Rightarrow> Inl e | Inr ok \<Rightarrow> if ok then k else Inl AssertionFailed)
      else k)"

subsection \<open>Dragging: \<open>TreeModel::mimeData\<close>\<close>

definition s_mimeType :: string where
  "s_mimeType = ''application/x-simpletreemodel-internalmove''"

text \<open>The first loop of \<open>mimeData\<close>: one entry per node, however many columns were selected.\<close>

fun dragged_nodes :: "addr list \<Rightarrow> QModelIndex list \<Rightarrow> addr list" where
  "dragged_nodes draggedNodes [] = draggedNodes"
| "dragged_nodes draggedNodes (index # indexes) =
     (let node = idx_ptr index in
      dragged_nodes (if node \<notin> set draggedNodes then draggedNodes @ [node] else draggedNodes)
        indexes)"

text \<open>The payload: the process id, the number of nodes, the node addresses.\<close>

definition TreeModel_mimeData :: "int \<Rightarrow> QModelIndex list \<Rightarrow> int QMimeData" where
  "TreeModel_mimeData applicationPid indexes =
     (let draggedNodes = dragged_nodes [] indexes in
      [(s_mimeType, [applicationPid, int (length draggedNodes)] @ map int draggedNodes)])"

subsection \<open>Dropping: \<open>TreeModel::dropMimeData\<close>\<close>

text \<open>
  The loop over the encoded nodes. Each round reads one address, announces the row,
  clones the node, inserts the clone under the parent node and announces completion.
  A stream that ends early delivers the null address.
\<close>

fun insert_clones ::
  "build \<Rightarrow> nat \<Rightarrow> TreeModel \<Rightarrow> QModelIndex \<Rightarrow> addr \<Rightarrow> nat \<Rightarrow> int list \<Rightarrow> int \<Rightarrow> error + TreeModel" where
  "insert_clones b fuel m parent parentNode 0 stream row = Inr m"
| "insert_clones b fuel m parent parentNode (Suc k) stream row =
     (case read_int stream of
        (nodePtr, stream') \<Rightarrow>
          (case siblingAtColumn b m parent 0 of
             Inl e \<Rightarrow> Inl e
           | Inr first \<Rightarrow>
               (let m1 = m\<lparr>trace := trace m @ [BeginInsertRows first row row]\<rparr> in
                case TreeNode_clone fuel (mem m1) (nat nodePtr) of
                  Inl e \<Rightarrow> Inl e
                | Inr (h1, copy) \<Rightarrow>
                    (case TreeNode_insertChild h1 parentNode row copy of
                       Inl e \<Rightarrow> Inl e
                     | Inr h2 \<Rightarrow>
                         insert_clones b fuel
                           (m1\<lparr>mem := h2,
                               trace := trace m1 @ [ChildInserted parentNode row, EndInsertRows]\<rparr>)
                           parent parentNode k stream' (row + 1)))))"

definition TreeModel_dropMimeData ::
  "build \<Rightarrow> nat \<Rightarrow> int \<Rightarrow> TreeModel \<Rightarrow> int QMimeData \<Rightarrow> DropAction \<Rightarrow> int \<Rightarrow> int \<Rightarrow> QModelIndex
     \<Rightarrow> error + bool \<times> TreeModel" where
  "TreeModel_dropMimeData b fuel applicationPid m mimeData action row column parent =
     (if \<not> hasFormat mimeData s_mimeType then Inr (False, m)
      else
        (case read_int (mime_data mimeData s_mimeType) of
           (senderPid, stream1) \<Rightarrow>
             if senderPid \<noteq> applicationPid then Inr (False, m)
             else
               (let parentNode = TreeModel_nodeForIndex m parent in
                Q_ASSERT b (parentNode \<noteq> nullptr)
                  (case read_int stream1 of
                     (count, stream2) \<Rightarrow>
                       (case (if row = - 1
                              then (if isValid parent then Inr 0
                                    else TreeModel_rowCount m QModelIndex_invalid)
                              else Inr row) of
                          Inl e \<Rightarrow> Inl e
                        | Inr row' \<Rightarrow>
                            (case insert_clones b fuel m parent parentNode (nat count) stream2 row' of
                               Inl e \<Rightarrow> Inl e
                             | Inr m' \<Rightarrow> Inr (True, m')))))))"

subsection \<open>Removing: \<open>TreeModel::removeRows\<close> and \<open>TreeModel::removeNode\<close>\<close>

text \<open>
  The loop of \<open>removeRows\<close>: each round detaches the child at \<open>row\<close> and drops the
  returned \<open>unique_ptr\<close>, which deletes the detached subtree.
\<close>

fun take_rows :: "nat \<Rightarrow> TreeModel \<Rightarrow> addr \<Rightarrow> int \<Rightarrow> nat \<Rightarrow> error + TreeModel" where
  "take_rows fuel m parentNode row 0 = Inr m"
| "take_rows fuel m parentNode row (Suc k) =
     (case TreeNode_takeChild (mem m) parentNode row of
        Inl e \<Rightarrow> Inl e
      | Inr (h1, taken) \<Rightarrow>
          (case TreeNode_delete fuel h1 taken of
             Inl e \<Rightarrow> Inl e
           | Inr h2 \<Rightarrow>
               take_rows fuel (m\<lparr>mem := h2, trace := trace m @ [ChildTaken parentNode row]\<rparr>)
                 parentNode row k))"

definition TreeModel_removeRows ::
  "build \<Rightarrow> nat \<Rightarrow> TreeModel \<Rightarrow> int \<Rightarrow> int \<Rightarrow> QModelIndex \<Rightarrow> error + bool \<times> TreeModel" where
  "TreeModel_removeRows b fuel m row count parent =
     Q_ASSERT_eval b (checkIndex b m parent)
       (Q_ASSERT b (row \<ge> 0)
          (let parentNode = TreeModel_nodeForIndex m parent in
           Q_ASSERT_eval b
             (case TreeNode_childCount (mem m) parentNode of
                Inl e \<Rightarrow> Inl e
              | Inr n \<Rightarrow> Inr (row \<le> n - count))
             (let m1 = m\<lparr>trace := trace m @ [BeginRemoveRows parent row (row + count - 1)]\<rparr> in
              case take_rows fuel m1 parentNode row (nat count) of
                Inl e \<Rightarrow> Inl e
              | Inr m2 \<Rightarrow> Inr (True, m2\<lparr>trace := trace m2 @ [EndRemoveRows]\<rparr>))))"


section \<open>The folder and country examples\<close>

record EmailFolder =
  folderName :: string
  emails :: "string list"

definition s_emailsMimeType :: string where
  "s_emailsMimeType = ''application/x-emails-list''"

subsection \<open>\<open>EmailsModel::mimeData\<close> (drop-onto-items-with-model-view.cpp)\<close>

text \<open>
  The loop over the dragged indexes: the email of every row not seen before is
  streamed. \<open>QList::at\<close> outside the list is outside its contract.
\<close>

fun stream_emails :: "string list \<Rightarrow> int set \<Rightarrow> string list \<Rightarrow> QModelIndex list \<Rightarrow> error + string list" where
  "stream_emails mails seenRows stream [] = Inr stream"
| "stream_emails mails seenRows stream (index # indexes) =
     (let row = idx_row index in
      if row \<notin> seenRows
      then (if 0 \<le> row \<and> row < int (length mails)
            then stream_emails mails (insert row seenRows) (stream @ [mails ! nat row]) indexes
            else Inl UndefinedBehaviour)
      else stream_emails mails seenRows stream indexes)"

definition EmailsModel_mimeData :: "EmailFolder \<Rightarrow> QModelIndex list \<Rightarrow> error + string QMimeData" where
  "EmailsModel_mimeData m_emailFolder indexes =
     (case stream_emails (emails m_emailFolder) {} [folderName m_emailFolder] indexes of
        Inl e \<Rightarrow> Inl e
      | Inr encodedData \<Rightarrow> Inr [(s_emailsMimeType, encodedData)])"

subsection \<open>\<open>CountryModel::mimeData\<close> (move-between-views-with-model-view.cpp)\<close>

record CountryData =
  country :: string
  population :: int

datatype stream_value = Value_QString string | Value_int int

definition s_countryMimeType :: string where
  "s_countryMimeType = ''application/x-countrydata''"

text \<open>\<open>operator<<\<close> for \<open>CountryData\<close> streams the name, then the population.\<close>

definition write_CountryData :: "stream_value list \<Rightarrow> CountryData \<Rightarrow> stream_value list" where
  "write_CountryData stream countryData =
     stream @ [Value_QString (country countryData), Value_int (population countryData)]"

fun stream_countries ::
  "CountryData list \<Rightarrow> int set \<Rightarrow> stream_value list \<Rightarrow> QModelIndex list \<Rightarrow> error + stream_value list" where
  "stream_countries m_data seenRows stream [] = Inr stream"
| "stream_countries m_data seenRows stream (index # indexes) =
     (let row = idx_row index in
      if row \<notin> seenRows
      then (if 0 \<le> row \<and> row < int (length m_data)
            then stream_countries m_data (insert row seenRows)
                   (write_CountryData stream (m_data ! nat row)) indexes
            else Inl UndefinedBehaviour)
      else stream_countries m_data seenRows stream indexes)"

definition CountryModel_mimeData :: "CountryData list \<Rightarrow> QModelIndex list \<Rightarrow> error + stream_value QMimeData" where
  "CountryModel_mimeData m_data indexes =
     (case stream_countries m_data {} [] indexes of
        Inl e \<Rightarrow> Inl e
      | Inr encodedData \<Rightarrow> Inr [(s_countryMimeType, encodedData)])"

subsection \<open>\<open>FoldersModel::dropMimeData\<close> (drop-onto-items-with-model-view.cpp)\<close>

text \<open>
  The model points to the application's vector of folders and emits \<open>dataChanged\<close>
  after a drop. The payload is the name of the source folder followed by the emails.
\<close>

record FoldersModel =
  m_emailFolders :: "EmailFolder list"
  dataChanged :: "(QModelIndex \<times> QModelIndex) list"

text \<open>The \<open>while (!stream.atEnd())\<close> loop: every remaining string is appended.\<close>

fun append_emails :: "string list \<Rightarrow> string list \<Rightarrow> string list" where
  "append_emails [] mails = mails"
| "append_emails (email # stream) mails = append_emails stream (mails @ [email])"

definition FoldersModel_dropMimeData ::
  "FoldersModel \<Rightarrow> string QMimeData \<Rightarrow> DropAction \<Rightarrow> int \<Rightarrow> int \<Rightarrow> QModelIndex
     \<Rightarrow> error + bool \<times> FoldersModel" where
  "FoldersModel_dropMimeData m mimeData action row column parent =
     (if \<not> isValid parent then Inr (False, m)
      else if \<not> idx_row parent < int (length (m_emailFolders m)) then Inl UndefinedBehaviour
      else
        (let destFolder = m_emailFolders m ! nat (idx_row parent);
             encodedData = mime_data mimeData s_emailsMimeType in
         if atEnd encodedData then Inr (False, m)
         else
           (case read_QString encodedData of
              (sourceFolder, stream) \<Rightarrow>
                if sourceFolder = folderName destFolder then Inr (False, m)
                else
                  Inr (True,
                       m\<lparr>m_emailFolders :=
                            (m_emailFolders m)
                              [nat (idx_row parent) :=
                                 destFolder\<lparr>emails := append_emails stream (emails destFolder)\<rparr>],
                          dataChanged := dataChanged m @ [(parent, parent)]\<rparr>))))"

subsection \<open>\<open>FoldersListWidget::dropMimeData\<close> (drop-onto-qlistwidgetitems.cpp)\<close>

text \<open>
  The widget examples pass pointers. A folder pointer \<open>p > 0\<close> names element \<open>p - 1\<close>
  of the application's vector of folders. The folders widget holds one item per row,
  each carrying a folder pointer; the emails widget holds the items of the folder on
  display, each an address with its text. An address that is not an item of the emails
  widget is a dangling item pointer.
\<close>

record EmailsApp =
  m_emails :: "EmailFolder list"
  folderItems :: "addr list"
  emailItems :: "(addr \<times> string) list"

definition folder_at :: "EmailFolder list \<Rightarrow> addr \<Rightarrow> EmailFolder option" where
  "folder_at folders p = (if p = nullptr \<or> length folders < p then None else Some (folders ! (p - 1)))"

definition set_folder :: "EmailFolder list \<Rightarrow> addr \<Rightarrow> EmailFolder \<Rightarrow> EmailFolder list" where
  "set_folder folders p f = (if p = nullptr then folders else folders[p - 1 := f])"

text \<open>\<open>QList::removeAt\<close> is defined for a position inside the list.\<close>

definition removeAt :: "'a list \<Rightarrow> int \<Rightarrow> error + 'a list" where
  "removeAt xs i =
     (if 0 \<le> i \<and> i < int (length xs) then Inr (take (nat i) xs @ drop (Suc (nat i)) xs)
      else Inl UndefinedBehaviour)"

text \<open>
  The loop over the dragged items. The text of each item is appended to the
  destination folder; on a move the email is also removed from the source folder, at
  the row the item has in the emails widget, and the item is deleted.
\<close>

fun move_items ::
  "('a EmailsApp_scheme) \<Rightarrow> addr \<Rightarrow> addr \<Rightarrow> DropAction \<Rightarrow> int list \<Rightarrow> error + 'a EmailsApp_scheme" where
  "move_items st destFolder sourceFolder action [] = Inr st"
| "move_items st destFolder sourceFolder action (emailItemPointer # rest) =
     (let emailItem = nat emailItemPointer in
      case map_of (emailItems st) emailItem of
        None \<Rightarrow> Inl UndefinedBehaviour
      | Some text \<Rightarrow>
          (case folder_at (m_emails st) destFolder of
             None \<Rightarrow> Inl UndefinedBehaviour
           | Some d \<Rightarrow>
               (let st1 = st\<lparr>m_emails := set_folder (m_emails st) destFolder (d\<lparr>emails := emails d @ [text]\<rparr>)\<rparr> in
                if action = MoveAction
                then
                  (let sourceRow = int (find_if (\<lambda>it. fst it = emailItem) (emailItems st1)) in
                   case folder_at (m_emails st1) sourceFolder of
                     None \<Rightarrow> Inl UndefinedBehaviour
                   | Some src \<Rightarrow>
                       (case removeAt (emails src) sourceRow of
                          Inl e \<Rightarrow> Inl e
                        | Inr mails \<Rightarrow>
                            move_items
                              (st1\<lparr>m_emails := set_folder (m_emails st1) sourceFolder (src\<lparr>emails := mails\<rparr>),
                                   emailItems := filter (\<lambda>it. fst it \<noteq> emailItem) (emailItems st1)\<rparr>)
                              destFolder sourceFolder action rest))
                else move_items st1 destFolder sourceFolder action rest)))"

definition FoldersListWidget_dropMimeData ::
  "build \<Rightarrow> int \<Rightarrow> EmailsApp \<Rightarrow> int \<Rightarrow> int QMimeData \<Rightarrow> DropAction \<Rightarrow> error + bool \<times> EmailsApp" where
  "FoldersListWidget_dropMimeData b applicationPid st index mimeData action =
     (if \<not> (0 \<le> index \<and> index < int (length (folderItems st))) then Inl UndefinedBehaviour
      else
        (let destFolder = folderItems st ! nat index in
         Q_ASSERT b (destFolder \<noteq> nullptr)
           (let encodedData = mime_data mimeData s_emailsMimeType in
            if atEnd encodedData then Inr (False, st)
            else
              (case read_int encodedData of
                 (senderPid, stream1) \<Rightarrow>
                   if senderPid \<noteq> applicationPid then Inr (False, st)
                   else
                     (case read_int stream1 of
                        (sourceFolderPtr, stream2) \<Rightarrow>
                          (let sourceFolder = nat sourceFolderPtr in
                           if sourceFolder = destFolder then Inr (False, st)
                           else
                             (case read_QList stream2 of
                                (emailItemPointers, stream3) \<Rightarrow>
                                  (case move_items st destFolder sourceFolder action emailItemPointers of
                                     Inl e \<Rightarrow> Inl e
                                   | Inr st' \<Rightarrow> Inr (False, st')))))))))"

subsection \<open>\<open>FoldersTableWidget::dropMimeData\<close> (drop-onto-qtablewidgetitems.cpp)\<close>

text \<open>
  The table has two items per row, both carrying the folder pointer; the second one
  displays the number of emails, which \<open>updateCounts\<close> refreshes for every folder.
\<close>

record TableApp = EmailsApp +
  counts :: "int list"

definition updateCounts :: "TableApp \<Rightarrow> error + TableApp" where
  "updateCounts st =
     (if length (counts st) < length (m_emails st) then Inl UndefinedBehaviour
      else Inr (st\<lparr>counts := map (\<lambda>f. int (length (emails f))) (m_emails st)
                              @ drop (length (m_emails st)) (counts st)\<rparr>))"

definition FoldersTableWidget_dropMimeData ::
  "build \<Rightarrow> int \<Rightarrow> TableApp \<Rightarrow> int \<Rightarrow> int \<Rightarrow> int QMimeData \<Rightarrow> DropAction \<Rightarrow> error + bool \<times> TableApp" where
  "FoldersTableWidget_dropMimeData b applicationPid st row column mimeData action =
     (if \<not> (0 \<le> row \<and> row < int (length (folderItems st)) \<and> 0 \<le> column \<and> column < 2)
      then Inl UndefinedBehaviour
      else
        (let destFolder = folderItems st ! nat row in
         Q_ASSERT b (destFolder \<noteq> nullptr)
           (let encodedData = mime_data mimeData s_emailsMimeType in
            if atEnd encodedData then Inr (False, st)
            else
              (case read_int encodedData of
                 (senderPid, stream1) \<Rightarrow>
                   if senderPid \<noteq> applicationPid then Inr (False, st)
                   else
                     (case read_int stream1 of
                        (sourceFolderPtr, stream2) \<Rightarrow>
                          (let sourceFolder = nat sourceFolderPtr in
                           if sourceFolder = destFolder then Inr (False, st)
                           else
                             (case read_QList stream2 of
                                (emailItemPointers, stream3) \<Rightarrow>
                                  (case move_items st destFolder sourceFolder action emailItemPointers of
                                     Inl e \<Rightarrow> Inl e
                                   | Inr st1 \<Rightarrow>
                                       (case updateCounts st1 of
                                          Inl e \<Rightarrow> Inl e
                                        | Inr st2 \<Rightarrow> Inr (False, st2))))))))))"

section \<open>Specification functions and example data\<close>

text \<open>
  The elements of a list in the order of their first occurrence, each once: the head
  is kept and every later copy of it is dropped.
\<close>

primrec first_occurrences :: "'a list \<Rightarrow> 'a list" where
  "first_occurrences [] = []"
| "first_occurrences (x # xs) = x # filter (\<lambda>y. y \<noteq> x) (first_occurrences xs)"

text \<open>
  A selection of two rows in a view with two columns, as a tree view passes it: one
  index per column, the row \<open>1\<close> (node \<open>3\<close>) selected before the row \<open>0\<close> (node \<open>2\<close>).
\<close>

definition selected_rows :: "QModelIndex list" where
  "selected_rows = [createIndex 1 0 3, createIndex 1 1 3, createIndex 0 0 2, createIndex 0 1 2]"

definition inbox :: EmailFolder where
  "inbox = \<lparr>folderName = ''Inbox'',
            emails = [''Call your mother'', ''Customer request'', ''Urgent'', ''Spam 1'']\<rparr>"

definition data2 :: "CountryData list" where
  "data2 = [\<lparr>country = ''Spain'', population = 56\<rparr>, \<lparr>country = ''France'', population = 67\<rparr>]"

text \<open>
  Example states: the tree of the scenario as a model, and the folders application of
  the third example with its first two folders, the emails widget showing the inbox.
\<close>

definition heap_ABC :: heap where
  "heap_ABC =
     [Some \<lparr>m_childNodes = [2, 3, 4],
            m_itemData = [QVariant_String ''Title'', QVariant_String ''Summary''],
            m_parentNode = nullptr\<rparr>,
      Some \<lparr>m_childNodes = [], m_itemData = [QVariant_String ''A''], m_parentNode = 1\<rparr>,
      Some \<lparr>m_childNodes = [], m_itemData = [QVariant_String ''B''], m_parentNode = 1\<rparr>,
      Some \<lparr>m_childNodes = [], m_itemData = [QVariant_String ''C''], m_parentNode = 1\<rparr>]"

definition tree_ABC :: TreeModel where
  "tree_ABC = \<lparr>mem = heap_ABC, rootNode = 1, trace = []\<rparr>"

definition customers :: EmailFolder where
  "customers = \<lparr>folderName = ''Customers'', emails = [''Old customer'']\<rparr>"

definition folders_model :: FoldersModel where
  "folders_model = \<lparr>m_emailFolders = [inbox, customers], dataChanged = []\<rparr>"

definition list_app :: EmailsApp where
  "list_app =
     \<lparr>m_emails = [inbox, customers],
      folderItems = [1, 2],
      emailItems = [(11, ''Call your mother''), (12, ''Customer request''),
                    (13, ''Urgent''), (14, ''Spam 1'')]\<rparr>"

definition table_app :: TableApp where
  "table_app =
     \<lparr>m_emails = [inbox, customers],
      folderItems = [1, 2],
      emailItems = [(11, ''Call your mother''), (12, ''Customer request''),
                    (13, ''Urgent''), (14, ''Spam 1'')],
      counts = [4, 1]\<rparr>"

subsection \<open>Ownership discipline of client programs\<close>

text \<open>
  Every child names its owner: each child of a live node is live and its parent
  back-reference is that node.
\<close>

definition parents_match :: "heap \<Rightarrow> bool" where
  "parents_match h \<longleftrightarrow>
     (\<forall>p P c. deref h p = Some P \<and> c \<in> set (m_childNodes P)
        \<longrightarrow> (\<exists>C. deref h c = Some C \<and> m_parentNode C = p))"

text \<open>
  What the types of the store's interface guarantee: a node handed to \<open>appendChild\<close> or
  \<open>insertChild\<close> is a \<open>unique_ptr\<close> the caller holds (\<open>owns\<close>). What its callers in
  the repository see to in addition: at the moment a node is passed to \<open>appendChild\<close>,
  its parent back-reference names the receiving node (\<open>names_parent\<close>). This is a
  condition on the node's state at the call, not on how it was constructed: it holds
  for a node that comes straight from a constructor given the receiver as parent, the
  only way the repository appends, and it does not hold for such a node once it has
  been inserted under another node and detached again. \<open>along\<close> checks a condition
  before every step of a run.
\<close>

fun owns :: "client \<Rightarrow> tree_op \<Rightarrow> bool" where
  "owns s (AppendChild this child) = (child \<in> set (held s))"
| "owns s (InsertChild this pos child) = (child \<in> set (held s))"
| "owns s x = True"

fun names_parent :: "client \<Rightarrow> tree_op \<Rightarrow> bool" where
  "names_parent s (AppendChild this child) = (TreeNode_parentNode (heap s) child = Inr this)"
| "names_parent s x = True"

fun along :: "(client \<Rightarrow> tree_op \<Rightarrow> bool) \<Rightarrow> client \<Rightarrow> tree_op list \<Rightarrow> bool" where
  "along ok s [] = True"
| "along ok s (x # xs) =
     (ok s x \<and> (case step_op s x of Inl e \<Rightarrow> True | Inr s' \<Rightarrow> along ok s' xs))"

text \<open>The invariant of disciplined runs: no node is in two child sequences or twice in
  one, held nodes are live and in no child sequence, and the root is parentless and in
  no child sequence.\<close>

definition unowned :: "heap \<Rightarrow> addr \<Rightarrow> bool" where
  "unowned h c \<longleftrightarrow> (\<forall>p P. deref h p = Some P \<longrightarrow> c \<notin> set (m_childNodes P))"

definition store_inv :: "addr \<Rightarrow> client \<Rightarrow> bool" where
  "store_inv root s \<longleftrightarrow>
     parents_match (heap s)
   \<and> (\<forall>p P. deref (heap s) p = Some P \<longrightarrow> distinct (m_childNodes P))
   \<and> (\<forall>c \<in> set (held s). deref (heap s) c \<noteq> None \<and> unowned (heap s) c)
   \<and> (\<exists>R. deref (heap s) root = Some R \<and> m_parentNode R = nullptr)
   \<and> root \<notin> set (held s) \<and> unowned (heap s) root"

text \<open>A store holding only a root, constructed with the default parent.\<close>

definition root_only :: "QVariant list \<Rightarrow> client" where
  "root_only dat = \<lparr>heap = fst (make_unique_TreeNode [] dat nullptr), held = []\<rparr>"

text \<open>A node constructed with the default parent (\<open>nullptr\<close>) and appended to the root.\<close>

definition append_default :: "tree_op list" where
  "append_default = [MakeNode [QVariant_String ''A''] nullptr, AppendChild 1 2]"

text \<open>
  "A" constructed with the root as parent, "B" with the default parent, both appended
  to the root, and the store this leaves.
\<close>

definition append_B_default :: "tree_op list" where
  "append_B_default =
     [MakeNode [QVariant_String ''A''] 1, AppendChild 1 2,
      MakeNode [QVariant_String ''B''] nullptr, AppendChild 1 3]"

definition heap_A_B_default :: heap where
  "heap_A_B_default =
     [Some \<lparr>m_childNodes = [2, 3],
            m_itemData = [QVariant_String ''Title'', QVariant_String ''Summary''],
            m_parentNode = nullptr\<rparr>,
      Some \<lparr>m_childNodes = [], m_itemData = [QVariant_String ''A''], m_parentNode = 1\<rparr>,
      Some \<lparr>m_childNodes = [], m_itemData = [QVariant_String ''B''], m_parentNode = nullptr\<rparr>]"

section \<open>Subtrees, clones and well-formed indexes\<close>

text \<open>
  The tree that hangs below a node, read off the heap: the column values of the node
  and the trees of its children in order. \<open>subtree n h a\<close> is defined when the nodes
  reachable from \<open>a\<close> are live and form a tree of height at most \<open>n\<close>; \<open>nodes_of\<close>
  lists the addresses visited.
\<close>

datatype tree = Tree "QVariant list" "tree list"

primrec subtree :: "nat \<Rightarrow> heap \<Rightarrow> addr \<Rightarrow> tree option" where
  "subtree 0 h a = None"
| "subtree (Suc n) h a =
     (case deref h a of
        None \<Rightarrow> None
      | Some N \<Rightarrow>
          (case those (map (subtree n h) (m_childNodes N)) of
             None \<Rightarrow> None
           | Some ts \<Rightarrow> Some (Tree (m_itemData N) ts)))"

primrec nodes_of :: "nat \<Rightarrow> heap \<Rightarrow> addr \<Rightarrow> addr list" where
  "nodes_of 0 h a = []"
| "nodes_of (Suc n) h a =
     a # (case deref h a of
            None \<Rightarrow> []
          | Some N \<Rightarrow> concat (map (nodes_of n h) (m_childNodes N)))"

text \<open>Two cells are alike when they agree on everything but the parent back-reference.\<close>

definition alike :: "TreeNode option \<Rightarrow> TreeNode option \<Rightarrow> bool" where
  "alike x y \<longleftrightarrow>
     (case x of
        None \<Rightarrow> y = None
      | Some N \<Rightarrow> (case y of None \<Rightarrow> False
                   | Some N' \<Rightarrow> m_childNodes N' = m_childNodes N \<and> m_itemData N' = m_itemData N))"

text \<open>
  What a completed clone of a tree \<open>t\<close> leaves behind: only fresh cells are written, the
  copy is the first of them, the tree below it is \<open>t\<close>, and its parent is as given.
\<close>

definition clone_post :: "nat \<Rightarrow> heap \<Rightarrow> tree \<Rightarrow> addr \<Rightarrow> heap \<Rightarrow> bool" where
  "clone_post n h t par h' \<longleftrightarrow>
     length h < length h'
   \<and> (\<forall>x \<le> length h. deref h' x = deref h x)
   \<and> subtree n h' (Suc (length h)) = Some t
   \<and> (\<forall>x \<in> set (nodes_of n h' (Suc (length h))). length h < x)
   \<and> (\<exists>N'. deref h' (Suc (length h)) = Some N' \<and> m_parentNode N' = par)"

text \<open>
  An index as a view passes it to the model: one that has a model is valid, and one in
  a column other than the first belongs to a node that is not the root, is not its own
  parent or grandparent, and whose sibling in the first column is the index of the
  same node.
\<close>

definition index_in_tree :: "build \<Rightarrow> TreeModel \<Rightarrow> QModelIndex \<Rightarrow> bool" where
  "index_in_tree b m index \<longleftrightarrow>
     (idx_model index \<longrightarrow> isValid index)
   \<and> (idx_model index \<and> idx_column index \<noteq> 0 \<longrightarrow>
        idx_ptr index \<noteq> rootNode m
      \<and> (case deref (mem m) (idx_ptr index) of
            None \<Rightarrow> False
          | Some N \<Rightarrow>
              m_parentNode N \<noteq> idx_ptr index
            \<and> (case deref (mem m) (m_parentNode N) of
                  None \<Rightarrow> False
                | Some PN \<Rightarrow> m_parentNode PN \<noteq> idx_ptr index)
            \<and> siblingAtColumn b m index 0 = Inr (createIndex (idx_row index) 0 (idx_ptr index))))"

text \<open>The trace of one round of the drop loop.\<close>

definition insert_block :: "QModelIndex \<Rightarrow> addr \<Rightarrow> int \<Rightarrow> event list" where
  "insert_block S p row = [BeginInsertRows S row row, ChildInserted p row, EndInsertRows]"

text \<open>
  The position at which a drop inserts: the given row, and for the row \<open>-1\<close> the
  position \<open>0\<close> under a valid parent index and the number of top-level rows otherwise.
\<close>

definition insertion_point :: "QModelIndex \<Rightarrow> int \<Rightarrow> TreeNode \<Rightarrow> int" where
  "insertion_point parent row P =
     (if row = - 1 then (if isValid parent then 0 else int (length (m_childNodes P))) else row)"

subsection \<open>The example tree after a removal and after drops\<close>

text \<open>
  The tree with "A", "B", "C" under the root after \<open>removeRows(1, 1)\<close> on the top
  level, after a drop of "B" onto "B" itself, and after a drop of "B" and "A" onto "C".
\<close>

definition tree_without_B :: TreeModel where
  "tree_without_B =
     \<lparr>mem =
        [Some \<lparr>m_childNodes = [2, 4],
               m_itemData = [QVariant_String ''Title'', QVariant_String ''Summary''],
               m_parentNode = nullptr\<rparr>,
         Some \<lparr>m_childNodes = [], m_itemData = [QVariant_String ''A''], m_parentNode = 1\<rparr>,
         None,
         Some \<lparr>m_childNodes = [], m_itemData = [QVariant_String ''C''], m_parentNode = 1\<rparr>],
      rootNode = 1,
      trace = [BeginRemoveRows QModelIndex_invalid 1 1, ChildTaken 1 1, EndRemoveRows]\<rparr>"

definition tree_B_under_B :: TreeModel where
  "tree_B_under_B =
     \<lparr>mem =
        [Some \<lparr>m_childNodes = [2, 3, 4],
               m_itemData = [QVariant_String ''Title'', QVariant_String ''Summary''],
               m_parentNode = nullptr\<rparr>,
         Some \<lparr>m_childNodes = [], m_itemData = [QVariant_String ''A''], m_parentNode = 1\<rparr>,
         Some \<lparr>m_childNodes = [5], m_itemData = [QVariant_String ''B''], m_parentNode = 1\<rparr>,
         Some \<lparr>m_childNodes = [], m_itemData = [QVariant_String ''C''], m_parentNode = 1\<rparr>,
         Some \<lparr>m_childNodes = [], m_itemData = [QVariant_String ''B''], m_parentNode = 3\<rparr>],
      rootNode = 1,
      trace = [BeginInsertRows (createIndex 1 0 3) 0 0, ChildInserted 3 0, EndInsertRows]\<rparr>"

definition tree_BA_under_C :: TreeModel where
  "tree_BA_under_C =
     \<lparr>mem =
        [Some \<lparr>m_childNodes = [2, 3, 4],
               m_itemData = [QVariant_String ''Title'', QVariant_String ''Summary''],
               m_parentNode = nullptr\<rparr>,
         Some \<lparr>m_childNodes = [], m_itemData = [QVariant_String ''A''], m_parentNode = 1\<rparr>,
         Some \<lparr>m_childNodes = [], m_itemData = [QVariant_String ''B''], m_parentNode = 1\<rparr>,
         Some \<lparr>m_childNodes = [5, 6], m_itemData = [QVariant_String ''C''], m_parentNode = 1\<rparr>,
         Some \<lparr>m_childNodes = [], m_itemData = [QVariant_String ''B''], m_parentNode = 4\<rparr>,
         Some \<lparr>m_childNodes = [], m_itemData = [QVariant_String ''A''], m_parentNode = 4\<rparr>],
      rootNode = 1,
      trace = [BeginInsertRows (createIndex 2 0 4) 0 0, ChildInserted 4 0, EndInsertRows,
               BeginInsertRows (createIndex 2 0 4) 1 1, ChildInserted 4 1, EndInsertRows]\<rparr>"

text \<open>
  The tree after a drop of "A" and "B" onto "B": the copy of "A" is inserted first, so
  the copy of "B" (node \<open>6\<close>) is made of a "B" that already holds it.
\<close>

definition tree_AB_under_B :: TreeModel where
  "tree_AB_under_B =
     \<lparr>mem =
        [Some \<lparr>m_childNodes = [2, 3, 4],
               m_itemData = [QVariant_String ''Title'', QVariant_String ''Summary''],
               m_parentNode = nullptr\<rparr>,
         Some \<lparr>m_childNodes = [], m_itemData = [QVariant_String ''A''], m_parentNode = 1\<rparr>,
         Some \<lparr>m_childNodes = [5, 6], m_itemData = [QVariant_String ''B''], m_parentNode = 1\<rparr>,
         Some \<lparr>m_childNodes = [], m_itemData = [QVariant_String ''C''], m_parentNode = 1\<rparr>,
         Some \<lparr>m_childNodes = [], m_itemData = [QVariant_String ''A''], m_parentNode = 3\<rparr>,
         Some \<lparr>m_childNodes = [7], m_itemData = [QVariant_String ''B''], m_parentNode = 3\<rparr>,
         Some \<lparr>m_childNodes = [], m_itemData = [QVariant_String ''A''], m_parentNode = 6\<rparr>],
      rootNode = 1,
      trace = [BeginInsertRows (createIndex 1 0 3) 0 0, ChildInserted 3 0, EndInsertRows,
               BeginInsertRows (createIndex 1 0 3) 1 1, ChildInserted 3 1, EndInsertRows]\<rparr>"


section \<open>The notification protocol\<close>





section \<open>Basic facts about the heap\<close>

lemma deref_store_same:
  "deref h a = Some m \<Longrightarrow> deref (store h a n) a = Some n"
  by (auto simp: deref_def store_def split: if_splits)

lemma deref_store_other:
  "a \<noteq> b \<Longrightarrow> deref (store h a n) b = deref h b"
  by (auto simp: deref_def store_def nth_list_update split: if_splits)

lemma deref_store:
  "deref h a = Some m \<Longrightarrow> deref (store h a n) b = (if b = a then Some n else deref h b)"
  by (simp add: deref_store_same deref_store_other)

lemma length_store [simp]: "length (store h a n) = length h"
  by (simp add: store_def)

lemma deref_Some_bounds: "deref h a = Some n \<Longrightarrow> 0 < a \<and> a \<le> length h"
  by (auto simp: deref_def split: if_splits)

lemma deref_append_old:
  "deref h a = Some n \<Longrightarrow> deref (h @ ys) a = Some n"
  by (auto simp: deref_def nth_append split: if_splits)

section \<open>Queries of the node store\<close>

text \<open>
  C9. On a live node, \<open>child(row)\<close> is the null pointer when \<open>row\<close> is negative or not
  less than \<open>childCount()\<close>, and \<open>data(column)\<close> is the invalid (empty) variant when
  \<open>column\<close> is negative or not less than \<open>columnCount()\<close>. Both are results, not
  failures. The two queries only read: they return a value and no heap, as the source
  functions consist of one \<open>return\<close> of an expression without assignment.
\<close>

theorem child_and_data_out_of_range:
  assumes "deref h this = Some n"
  shows "(row < 0 \<or> TreeNode_childCount h this = Inr c \<and> c \<le> row
            \<longrightarrow> TreeNode_child h this row = Inr nullptr)
       \<and> (column < 0 \<or> TreeNode_columnCount h this = Inr k \<and> k \<le> column
            \<longrightarrow> TreeNode_data h this column = Inr QVariant_Invalid)"
  using assms
  by (auto simp: TreeNode_child_def TreeNode_childCount_def TreeNode_data_def
        TreeNode_columnCount_def QList_value_def)

theorem child_and_data_out_of_range_witness:
  "deref (heap empty_root) 1 \<noteq> None
   \<and> TreeNode_childCount (heap empty_root) 1 = Inr 0
   \<and> TreeNode_columnCount (heap empty_root) 1 = Inr 2
   \<and> TreeNode_child (heap empty_root) 1 0 = Inr nullptr
   \<and> TreeNode_data (heap empty_root) 1 2 = Inr QVariant_Invalid"
proof -
  have live: "deref (heap empty_root) (Suc 0) =
                Some \<lparr>m_childNodes = [],
                      m_itemData = [QVariant_String ''Title'', QVariant_String ''Summary''],
                      m_parentNode = nullptr\<rparr>"
    by (simp add: empty_root_def make_unique_TreeNode_def deref_def)
  have cc: "TreeNode_childCount (heap empty_root) (Suc 0) = Inr 0"
    by (simp add: TreeNode_childCount_def live)
  have kc: "TreeNode_columnCount (heap empty_root) (Suc 0) = Inr 2"
    by (simp add: TreeNode_columnCount_def live)
  from child_and_data_out_of_range [OF live, of 0 0 2 2] cc kc live
  show ?thesis by simp
qed

lemma find_if_nth:
  "i < length xs \<Longrightarrow> distinct xs \<Longrightarrow> find_if (\<lambda>y. y = xs ! i) xs = i"
proof (induction xs arbitrary: i)
  case Nil
  then show ?case by simp
next
  case (Cons x xs)
  show ?case
  proof (cases i)
    case 0
    then show ?thesis by simp
  next
    case (Suc j)
    with Cons.prems have "xs ! j \<noteq> x" by auto
    with Suc Cons show ?thesis by auto
  qed
qed

text \<open>
  C5, as amended. A node whose parent back-reference names a live node, and which is
  the \<open>i\<close>-th element of that node's child sequence, has \<open>row() = i\<close>; a node whose
  parent back-reference is null has \<open>row() = 0\<close>. The child sequence holds
  \<open>unique_ptr\<close>s, so no node occurs in it twice.
\<close>

theorem row_is_position:
  "(deref h this = Some n \<and> m_parentNode n \<noteq> nullptr \<and> deref h (m_parentNode n) = Some p
      \<and> i < length (m_childNodes p) \<and> m_childNodes p ! i = this \<and> distinct (m_childNodes p)
      \<longrightarrow> TreeNode_row b h this = Inr (int i))
   \<and> (deref h this = Some n \<and> m_parentNode n = nullptr \<longrightarrow> TreeNode_row b h this = Inr 0)"
  using find_if_nth [of i "m_childNodes p"]
  by (auto simp: TreeNode_row_def Let_def)

lemma run_build_ABC:
  "run_ops empty_root build_ABC =
     Inr \<lparr>heap =
            [Some \<lparr>m_childNodes = [2, 3, 4],
                   m_itemData = [QVariant_String ''Title'', QVariant_String ''Summary''],
                   m_parentNode = nullptr\<rparr>,
             Some \<lparr>m_childNodes = [], m_itemData = [QVariant_String ''A''], m_parentNode = 1\<rparr>,
             Some \<lparr>m_childNodes = [], m_itemData = [QVariant_String ''B''], m_parentNode = 1\<rparr>,
             Some \<lparr>m_childNodes = [], m_itemData = [QVariant_String ''C''], m_parentNode = 1\<rparr>],
          held = []\<rparr>"
  by (simp add: empty_root_def build_ABC_def make_unique_TreeNode_def TreeNode_appendChild_def
        deref_def store_def)

lemma run_move_B_first:
  "run_ops empty_root (build_ABC @ move_B_first) =
     Inr \<lparr>heap =
            [Some \<lparr>m_childNodes = [3, 2, 4],
                   m_itemData = [QVariant_String ''Title'', QVariant_String ''Summary''],
                   m_parentNode = nullptr\<rparr>,
             Some \<lparr>m_childNodes = [], m_itemData = [QVariant_String ''A''], m_parentNode = 1\<rparr>,
             Some \<lparr>m_childNodes = [], m_itemData = [QVariant_String ''B''], m_parentNode = 1\<rparr>,
             Some \<lparr>m_childNodes = [], m_itemData = [QVariant_String ''C''], m_parentNode = 1\<rparr>],
          held = []\<rparr>"
  by (simp add: empty_root_def build_ABC_def move_B_first_def make_unique_TreeNode_def
        TreeNode_appendChild_def TreeNode_takeChild_def TreeNode_insertChild_def deref_def
        store_def)

theorem row_is_position_witness:
  "\<exists>s. run_ops empty_root build_ABC = Inr s
     \<and> deref (heap s) 4 \<noteq> None
     \<and> TreeNode_parentNode (heap s) 4 = Inr 1
     \<and> TreeNode_child (heap s) 1 2 = Inr 4
     \<and> TreeNode_row Debug (heap s) 4 = Inr 2
     \<and> TreeNode_row Debug (heap s) 1 = Inr 0"
proof -
  define rt where "rt = \<lparr>m_childNodes = [2, 3, 4::nat],
                   m_itemData = [QVariant_String ''Title'', QVariant_String ''Summary''],
                   m_parentNode = nullptr\<rparr>"
  define cn where "cn = \<lparr>m_childNodes = [], m_itemData = [QVariant_String ''C''], m_parentNode = Suc 0\<rparr>"
  define h where "h = [Some rt,
             Some \<lparr>m_childNodes = [], m_itemData = [QVariant_String ''A''], m_parentNode = 1\<rparr>,
             Some \<lparr>m_childNodes = [], m_itemData = [QVariant_String ''B''], m_parentNode = 1\<rparr>,
             Some cn]"
  have run: "run_ops empty_root build_ABC = Inr \<lparr>heap = h, held = []\<rparr>"
    by (simp add: run_build_ABC h_def rt_def cn_def)
  have c: "deref h 4 = Some cn" by (simp add: deref_def h_def)
  have r: "deref h (Suc 0) = Some rt" by (simp add: deref_def h_def)
  have "TreeNode_row Debug h 4 = Inr (int 2)"
    using row_is_position [where h = h and this = 4 and n = cn and p = rt and i = 2 and b = Debug] c r
    by (simp add: cn_def) (simp add: rt_def)
  moreover have "TreeNode_row Debug h (Suc 0) = Inr 0"
    using row_is_position [where h = h and this = "Suc 0" and n = rt and b = Debug] r
    by (simp add: rt_def)
  ultimately show ?thesis
    using c r by (simp add: run TreeNode_parentNode_def TreeNode_child_def) (simp add: rt_def cn_def)
qed

text \<open>
  C5, as stated, fails: \<open>row()\<close> searches the children of the node that the parent
  back-reference names, not of the node that holds the node. "B", constructed with
  the default parent and appended to the root after "A", is the element \<open>1\<close> of the
  root's child sequence, its back-reference is null and its \<open>row()\<close> is \<open>0\<close>.
\<close>

theorem appended_node_row_is_not_its_position:
  "run_ops empty_root append_B_default = Inr \<lparr>heap = heap_A_B_default, held = []\<rparr>
   \<and> TreeNode_child heap_A_B_default 1 1 = Inr 3
   \<and> TreeNode_data heap_A_B_default 3 0 = Inr (QVariant_String ''B'')
   \<and> TreeNode_parentNode heap_A_B_default 3 = Inr nullptr
   \<and> TreeNode_row Debug heap_A_B_default 3 = Inr 0
   \<and> TreeNode_row Release heap_A_B_default 3 = Inr 0"
  by code_simp

text \<open>
  C6. The scenario runs to its end in both builds. "B" is at position \<open>1\<close> after the
  three appends; \<open>takeChild\<close> on that position returns "B"; after \<open>insertChild\<close> of the
  returned node at position \<open>0\<close> the root has the three children "B", "A", "C" in this
  order, and \<open>row()\<close> of "B" is \<open>0\<close>.
\<close>

theorem scenario_B_A_C:
  "\<exists>out. scenario b = Inr out
     \<and> o_position out = 1
     \<and> o_returned out = o_B out
     \<and> TreeNode_childCount (o_heap out) (o_root out) = Inr 3
     \<and> TreeNode_child (o_heap out) (o_root out) 0 = Inr (o_B out)
     \<and> TreeNode_child (o_heap out) (o_root out) 1 = Inr (o_A out)
     \<and> TreeNode_child (o_heap out) (o_root out) 2 = Inr (o_C out)
     \<and> TreeNode_data (o_heap out) (o_A out) 0 = Inr (QVariant_String ''A'')
     \<and> TreeNode_data (o_heap out) (o_B out) 0 = Inr (QVariant_String ''B'')
     \<and> TreeNode_data (o_heap out) (o_C out) 0 = Inr (QVariant_String ''C'')
     \<and> TreeNode_row b (o_heap out) (o_B out) = Inr 0"
  by (cases b)
     (simp_all add: scenario_def append_new_def make_unique_TreeNode_def TreeNode_appendChild_def
        TreeNode_row_def TreeNode_takeChild_def TreeNode_insertChild_def TreeNode_childCount_def
        TreeNode_child_def TreeNode_data_def QList_value_def Q_ASSERT_def deref_def store_def Let_def)

section \<open>Counting children\<close>

lemma childCount_Inr:
  "TreeNode_childCount h n = Inr c \<longleftrightarrow>
     (\<exists>N. deref h n = Some N \<and> c = int (length (m_childNodes N)))"
  by (auto simp: TreeNode_childCount_def split: option.splits)

lemma step_op_childCount:
  assumes "step_op s x = Inr s'" and "TreeNode_childCount (heap s) n = Inr c"
  shows "TreeNode_childCount (heap s') n =
           Inr (c + int (appends_on n [x]) + int (inserts_on n [x]) - int (takes_on n [x]))"
proof -
  from assms(2) obtain N where N: "deref (heap s) n = Some N" "c = int (length (m_childNodes N))"
    by (auto simp: childCount_Inr)
  show ?thesis
  proof (cases x)
    case (MakeNode dat parent)
    with assms N show ?thesis
      by (auto simp: make_unique_TreeNode_def childCount_Inr deref_append_old)
  next
    case (AppendChild this child)
    with assms N show ?thesis
      by (auto simp: TreeNode_appendChild_def childCount_Inr deref_store split: option.splits)
  next
    case (InsertChild this pos child)
    with assms N show ?thesis
      by (auto simp: TreeNode_insertChild_def childCount_Inr deref_store Let_def
               split: option.splits if_splits)
  next
    case (TakeChild this row)
    with assms N show ?thesis
      by (auto simp: TreeNode_takeChild_def childCount_Inr deref_store
               split: option.splits if_splits)
  qed
qed

lemma counts_Cons:
  "appends_on n (x # xs) = appends_on n [x] + appends_on n xs"
  "inserts_on n (x # xs) = inserts_on n [x] + inserts_on n xs"
  "takes_on n (x # xs) = takes_on n [x] + takes_on n xs"
  by (cases x; simp)+

text \<open>
  C4. Whatever program of constructions, appends, insertions and detachments a client
  runs to its end, the child count of a node afterwards is its child count before,
  plus the number of \<open>appendChild\<close> and \<open>insertChild\<close> calls on that node, minus the
  number of \<open>takeChild\<close> calls on it. For a node that starts without children this is
  the number of appends plus insertions minus detachments.
\<close>

theorem childCount_counts_operations:
  "run_ops s ops = Inr s' \<Longrightarrow> TreeNode_childCount (heap s) n = Inr c \<Longrightarrow>
   TreeNode_childCount (heap s') n =
     Inr (c + int (appends_on n ops) + int (inserts_on n ops) - int (takes_on n ops))"
proof (induction ops arbitrary: s c)
  case Nil
  then show ?case by simp
next
  case (Cons x xs)
  from Cons.prems(1) obtain s1 where s1: "step_op s x = Inr s1" "run_ops s1 xs = Inr s'"
    by (auto split: sum.splits)
  from step_op_childCount [OF s1(1) Cons.prems(2)]
  have "TreeNode_childCount (heap s1) n =
          Inr (c + int (appends_on n [x]) + int (inserts_on n [x]) - int (takes_on n [x]))" .
  from Cons.IH [OF s1(2) this] show ?case
    by (simp add: counts_Cons [of n x xs] algebra_simps)
qed

theorem childCount_counts_operations_witness:
  "\<exists>s. run_ops empty_root (build_ABC @ move_B_first) = Inr s
     \<and> TreeNode_childCount (heap empty_root) 1 = Inr 0
     \<and> appends_on 1 (build_ABC @ move_B_first) = 3
     \<and> inserts_on 1 (build_ABC @ move_B_first) = 1
     \<and> takes_on 1 (build_ABC @ move_B_first) = 1
     \<and> TreeNode_childCount (heap s) 1 = Inr 3"
proof -
  have c0: "TreeNode_childCount (heap empty_root) 1 = Inr 0"
    by (simp add: TreeNode_childCount_def empty_root_def make_unique_TreeNode_def deref_def)
  have n: "appends_on 1 (build_ABC @ move_B_first) = 3"
          "inserts_on 1 (build_ABC @ move_B_first) = 1"
          "takes_on 1 (build_ABC @ move_B_first) = 1"
    by (simp_all add: build_ABC_def move_B_first_def)
  from childCount_counts_operations [OF run_move_B_first c0] n c0
  show ?thesis by (simp add: run_move_B_first)
qed

section \<open>Encoding a drag\<close>

lemma set_first_occurrences [simp]: "set (first_occurrences xs) = set xs"
  by (induction xs) auto

lemma distinct_first_occurrences [simp]: "distinct (first_occurrences xs)"
  by (induction xs) auto

lemma dragged_nodes_eq:
  "dragged_nodes acc indexes =
     acc @ filter (\<lambda>x. x \<notin> set acc) (first_occurrences (map idx_ptr indexes))"
proof (induction indexes arbitrary: acc)
  case Nil
  then show ?case by simp
next
  case (Cons index indexes)
  have "filter (\<lambda>x. x \<noteq> idx_ptr index \<and> x \<notin> set acc) ys
          = filter (\<lambda>x. x \<notin> set acc) ys" if "idx_ptr index \<in> set acc" for ys :: "addr list"
    using that by (intro filter_cong) auto
  then show ?case
    by (auto simp: Cons.IH Let_def conj_commute)
qed

lemma stream_emails_eq:
  "\<forall>index \<in> set indexes. 0 \<le> idx_row index \<and> idx_row index < int (length mails) \<Longrightarrow>
   stream_emails mails seen stream indexes =
     Inr (stream @ map (\<lambda>r. mails ! nat r)
            (filter (\<lambda>r. r \<notin> seen) (first_occurrences (map idx_row indexes))))"
proof (induction indexes arbitrary: seen stream)
  case Nil
  then show ?case by simp
next
  case (Cons index indexes)
  have "filter (\<lambda>x. x \<noteq> idx_row index \<and> x \<notin> seen) ys
          = filter (\<lambda>x. x \<notin> seen) ys" if "idx_row index \<in> seen" for ys :: "int list"
    using that by (intro filter_cong) auto
  with Cons show ?case
    by (auto simp: Let_def conj_commute)
qed

lemma stream_countries_eq:
  "\<forall>index \<in> set indexes. 0 \<le> idx_row index \<and> idx_row index < int (length m_data) \<Longrightarrow>
   stream_countries m_data seen stream indexes =
     Inr (stream @ concat (map (\<lambda>r. [Value_QString (country (m_data ! nat r)),
                                      Value_int (population (m_data ! nat r))])
            (filter (\<lambda>r. r \<notin> seen) (first_occurrences (map idx_row indexes)))))"
proof (induction indexes arbitrary: seen stream)
  case Nil
  then show ?case by simp
next
  case (Cons index indexes)
  have "filter (\<lambda>x. x \<noteq> idx_row index \<and> x \<notin> seen) ys
          = filter (\<lambda>x. x \<notin> seen) ys" if "idx_row index \<in> seen" for ys :: "int list"
    using that by (intro filter_cong) auto
  with Cons show ?case
    by (auto simp: Let_def conj_commute write_CountryData_def)
qed

text \<open>
  C10. The payload that \<open>TreeModel::mimeData\<close> encodes lists the dragged nodes in the
  order of their first occurrence in the index list, each node once, and the encoded
  count is their number; the payloads of \<open>EmailsModel::mimeData\<close> and of
  \<open>CountryModel::mimeData\<close> (the model of the second example) carry the content of
  the dragged rows in the order of the first occurrence of each row, once per row,
  after the folder name in the first case. An index list with one index per column of
  a row is no different. The rows must be rows of the model, as \<open>QList::at\<close> requires.
\<close>

theorem mimeData_encodes_each_once:
  "(let nodes = first_occurrences (map idx_ptr indexes) in
      distinct nodes \<and> set nodes = idx_ptr ` set indexes
    \<and> TreeModel_mimeData applicationPid indexes =
        [(s_mimeType, [applicationPid, int (length nodes)] @ map int nodes)])
   \<and> (let rows = first_occurrences (map idx_row indexes) in
      distinct rows \<and> set rows = idx_row ` set indexes
    \<and> ((\<forall>index \<in> set indexes. 0 \<le> idx_row index \<and> idx_row index < int (length (emails folder)))
        \<longrightarrow> EmailsModel_mimeData folder indexes =
              Inr [(s_emailsMimeType, folderName folder # map (\<lambda>r. emails folder ! nat r) rows)])
    \<and> ((\<forall>index \<in> set indexes. 0 \<le> idx_row index \<and> idx_row index < int (length m_data))
        \<longrightarrow> CountryModel_mimeData m_data indexes =
              Inr [(s_countryMimeType,
                    concat (map (\<lambda>r. [Value_QString (country (m_data ! nat r)),
                                       Value_int (population (m_data ! nat r))]) rows))]))"
  by (simp add: Let_def TreeModel_mimeData_def dragged_nodes_eq EmailsModel_mimeData_def
        CountryModel_mimeData_def stream_emails_eq stream_countries_eq)


theorem mimeData_encodes_each_once_witness:
  "TreeModel_mimeData 4242 selected_rows = [(s_mimeType, [4242, 2, 3, 2])]
   \<and> EmailsModel_mimeData inbox selected_rows
       = Inr [(s_emailsMimeType, [''Inbox'', ''Customer request'', ''Call your mother''])]
   \<and> CountryModel_mimeData data2 selected_rows
       = Inr [(s_countryMimeType,
               [Value_QString ''France'', Value_int 67, Value_QString ''Spain'', Value_int 56])]"
  using mimeData_encodes_each_once [of selected_rows 4242 inbox data2]
  by (simp add: selected_rows_def createIndex_def inbox_def data2_def Let_def)

section \<open>Declined drops\<close>

text \<open>
  C1, as amended. The tree model and the two folder widgets decline, returning
  \<open>false\<close> with the whole state unchanged (every node of the heap, every folder,
  every item and the trace of notifications), when the mime data has no payload of
  the handler's format or when the process id at the head of the payload is not the
  id of this process; the two widgets also when the source folder of the payload is
  the destination folder (compared by address). The folders model, whose payload
  starts with the name of the source folder and carries no process id, declines in
  the same way when the mime data has no payload of its format or when the source
  folder named by the payload is the destination folder (compared by name). For the
  three folder handlers the drop is onto an existing item (for the widgets one that
  carries its folder pointer): they look the destination up before they decode
  anything.
\<close>

theorem rejected_drops_change_nothing:
  "(\<not> hasFormat treeData s_mimeType \<or> fst (read_int (mime_data treeData s_mimeType)) \<noteq> applicationPid
      \<longrightarrow> TreeModel_dropMimeData b fuel applicationPid m treeData action row column parent = Inr (False, m))
   \<and> ((isValid parent \<longrightarrow> idx_row parent < int (length (m_emailFolders fm)))
        \<and> (\<not> hasFormat folderData s_emailsMimeType
            \<or> isValid parent
               \<and> fst (read_QString (mime_data folderData s_emailsMimeType))
                   = folderName (m_emailFolders fm ! nat (idx_row parent)))
      \<longrightarrow> FoldersModel_dropMimeData fm folderData action row column parent = Inr (False, fm))
   \<and> (0 \<le> index \<and> index < int (length (folderItems st)) \<and> folderItems st ! nat index \<noteq> nullptr
        \<and> (\<not> hasFormat itemData s_emailsMimeType
            \<or> fst (read_int (mime_data itemData s_emailsMimeType)) \<noteq> applicationPid
            \<or> nat (fst (read_int (snd (read_int (mime_data itemData s_emailsMimeType)))))
                 = folderItems st ! nat index)
      \<longrightarrow> FoldersListWidget_dropMimeData b applicationPid st index itemData action = Inr (False, st))
   \<and> (0 \<le> trow \<and> trow < int (length (folderItems tst)) \<and> 0 \<le> tcolumn \<and> tcolumn < 2
        \<and> folderItems tst ! nat trow \<noteq> nullptr
        \<and> (\<not> hasFormat itemData s_emailsMimeType
            \<or> fst (read_int (mime_data itemData s_emailsMimeType)) \<noteq> applicationPid
            \<or> nat (fst (read_int (snd (read_int (mime_data itemData s_emailsMimeType)))))
                 = folderItems tst ! nat trow)
      \<longrightarrow> FoldersTableWidget_dropMimeData b applicationPid tst trow tcolumn itemData action = Inr (False, tst))"
proof (intro conjI impI)
  assume "\<not> hasFormat treeData s_mimeType \<or> fst (read_int (mime_data treeData s_mimeType)) \<noteq> applicationPid"
  then show "TreeModel_dropMimeData b fuel applicationPid m treeData action row column parent = Inr (False, m)"
    by (auto simp: TreeModel_dropMimeData_def split: prod.splits)
next
  assume "(isValid parent \<longrightarrow> idx_row parent < int (length (m_emailFolders fm)))
        \<and> (\<not> hasFormat folderData s_emailsMimeType
            \<or> isValid parent
               \<and> fst (read_QString (mime_data folderData s_emailsMimeType))
                   = folderName (m_emailFolders fm ! nat (idx_row parent)))"
  then show "FoldersModel_dropMimeData fm folderData action row column parent = Inr (False, fm)"
    by (auto simp: FoldersModel_dropMimeData_def Let_def hasFormat_def mime_data_def atEnd_def
             split: prod.splits option.splits)
next
  assume "0 \<le> index \<and> index < int (length (folderItems st)) \<and> folderItems st ! nat index \<noteq> nullptr
        \<and> (\<not> hasFormat itemData s_emailsMimeType
            \<or> fst (read_int (mime_data itemData s_emailsMimeType)) \<noteq> applicationPid
            \<or> nat (fst (read_int (snd (read_int (mime_data itemData s_emailsMimeType)))))
                 = folderItems st ! nat index)"
  then show "FoldersListWidget_dropMimeData b applicationPid st index itemData action = Inr (False, st)"
    by (auto simp: FoldersListWidget_dropMimeData_def Let_def Q_ASSERT_def hasFormat_def
          mime_data_def atEnd_def split: prod.splits option.splits)
next
  assume "0 \<le> trow \<and> trow < int (length (folderItems tst)) \<and> 0 \<le> tcolumn \<and> tcolumn < 2
        \<and> folderItems tst ! nat trow \<noteq> nullptr
        \<and> (\<not> hasFormat itemData s_emailsMimeType
            \<or> fst (read_int (mime_data itemData s_emailsMimeType)) \<noteq> applicationPid
            \<or> nat (fst (read_int (snd (read_int (mime_data itemData s_emailsMimeType)))))
                 = folderItems tst ! nat trow)"
  then show "FoldersTableWidget_dropMimeData b applicationPid tst trow tcolumn itemData action = Inr (False, tst)"
    by (auto simp: FoldersTableWidget_dropMimeData_def Let_def Q_ASSERT_def hasFormat_def
          mime_data_def atEnd_def split: prod.splits option.splits)
qed


theorem rejected_drops_change_nothing_witness:
  "TreeModel_dropMimeData Debug 3 4242 tree_ABC [(''text/plain'', [4242, 1, 3])] MoveAction (- 1) (- 1)
       QModelIndex_invalid = Inr (False, tree_ABC)
   \<and> TreeModel_dropMimeData Debug 3 4242 tree_ABC (TreeModel_mimeData 17 selected_rows) MoveAction (- 1) (- 1)
       QModelIndex_invalid = Inr (False, tree_ABC)
   \<and> FoldersModel_dropMimeData folders_model [(s_emailsMimeType, [''Inbox'', ''Urgent''])] MoveAction
       (- 1) (- 1) (createIndex 0 0 nullptr) = Inr (False, folders_model)
   \<and> FoldersModel_dropMimeData folders_model [(''text/plain'', [''Customers'', ''Urgent''])] MoveAction
       (- 1) (- 1) (createIndex 0 0 nullptr) = Inr (False, folders_model)
   \<and> FoldersListWidget_dropMimeData Debug 4242 list_app 0 [(s_emailsMimeType, [4242, 1, 1, 13])] MoveAction
       = Inr (False, list_app)
   \<and> FoldersListWidget_dropMimeData Debug 4242 list_app 1 [(s_emailsMimeType, [17, 1, 1, 13])] MoveAction
       = Inr (False, list_app)
   \<and> FoldersTableWidget_dropMimeData Debug 4242 table_app 0 1 [(s_emailsMimeType, [4242, 1, 1, 13])] MoveAction
       = Inr (False, table_app)
   \<and> FoldersTableWidget_dropMimeData Debug 4242 table_app 1 0 [(''text/plain'', [4242, 1, 1, 13])] MoveAction
       = Inr (False, table_app)"
proof -
  have loc: "folderItems list_app = [1, 2]" "folderItems table_app = [1, 2]"
            "m_emailFolders folders_model = [inbox, customers]"
    by (simp_all add: list_app_def table_app_def folders_model_def)
  have fmt: "s_mimeType \<noteq> ''text/plain''" "s_emailsMimeType \<noteq> ''text/plain''"
    by (simp_all add: s_mimeType_def s_emailsMimeType_def)
  note r = rejected_drops_change_nothing
  from r [where treeData = "[(''text/plain'', [4242, 1, 3])]" and applicationPid = 4242 and b = Debug
            and fuel = 3 and m = tree_ABC and action = MoveAction and row = "- 1" and column = "- 1"
            and parent = QModelIndex_invalid] fmt
  have 1: "TreeModel_dropMimeData Debug 3 4242 tree_ABC [(''text/plain'', [4242, 1, 3])] MoveAction (- 1) (- 1)
       QModelIndex_invalid = Inr (False, tree_ABC)"
    by (simp add: hasFormat_def)
  from r [where treeData = "TreeModel_mimeData 17 selected_rows" and applicationPid = 4242 and b = Debug
            and fuel = 3 and m = tree_ABC and action = MoveAction and row = "- 1" and column = "- 1"
            and parent = QModelIndex_invalid]
  have 2: "TreeModel_dropMimeData Debug 3 4242 tree_ABC (TreeModel_mimeData 17 selected_rows) MoveAction (- 1) (- 1)
       QModelIndex_invalid = Inr (False, tree_ABC)"
    by (simp add: TreeModel_mimeData_def mime_data_def read_int_def Let_def)
  from r [where folderData = "[(s_emailsMimeType, [''Inbox'', ''Urgent''])]" and fm = folders_model
            and action = MoveAction and row = "- 1" and column = "- 1" and parent = "createIndex 0 0 nullptr"] loc
  have 3: "FoldersModel_dropMimeData folders_model [(s_emailsMimeType, [''Inbox'', ''Urgent''])] MoveAction
       (- 1) (- 1) (createIndex 0 0 nullptr) = Inr (False, folders_model)"
    by (simp add: createIndex_def isValid_def mime_data_def read_QString_def inbox_def)
  from r [where folderData = "[(''text/plain'', [''Customers'', ''Urgent''])]" and fm = folders_model
            and action = MoveAction and row = "- 1" and column = "- 1" and parent = "createIndex 0 0 nullptr"] loc fmt
  have 4: "FoldersModel_dropMimeData folders_model [(''text/plain'', [''Customers'', ''Urgent''])] MoveAction
       (- 1) (- 1) (createIndex 0 0 nullptr) = Inr (False, folders_model)"
    by (simp add: createIndex_def isValid_def hasFormat_def)
  from r [where itemData = "[(s_emailsMimeType, [4242, 1, 1, 13])]" and applicationPid = 4242 and b = Debug
            and st = list_app and index = 0 and action = MoveAction] loc
  have 5: "FoldersListWidget_dropMimeData Debug 4242 list_app 0 [(s_emailsMimeType, [4242, 1, 1, 13])] MoveAction
       = Inr (False, list_app)"
    by (simp add: mime_data_def read_int_def)
  from r [where itemData = "[(s_emailsMimeType, [17, 1, 1, 13])]" and applicationPid = 4242 and b = Debug
            and st = list_app and index = 1 and action = MoveAction] loc
  have 6: "FoldersListWidget_dropMimeData Debug 4242 list_app 1 [(s_emailsMimeType, [17, 1, 1, 13])] MoveAction
       = Inr (False, list_app)"
    by (simp add: mime_data_def read_int_def)
  from r [where itemData = "[(s_emailsMimeType, [4242, 1, 1, 13])]" and applicationPid = 4242 and b = Debug
            and tst = table_app and trow = 0 and tcolumn = 1 and action = MoveAction] loc
  have 7: "FoldersTableWidget_dropMimeData Debug 4242 table_app 0 1 [(s_emailsMimeType, [4242, 1, 1, 13])] MoveAction
       = Inr (False, table_app)"
    by (simp add: mime_data_def read_int_def)
  from r [where itemData = "[(''text/plain'', [4242, 1, 1, 13])]" and applicationPid = 4242 and b = Debug
            and tst = table_app and trow = 1 and tcolumn = 0 and action = MoveAction] loc fmt
  have 8: "FoldersTableWidget_dropMimeData Debug 4242 table_app 1 0 [(''text/plain'', [4242, 1, 1, 13])] MoveAction
       = Inr (False, table_app)"
    by (simp add: hasFormat_def)
  from 1 2 3 4 5 6 7 8 show ?thesis by simp
qed

lemma accepted_list_drop_moves_email:
  "FoldersListWidget_dropMimeData Debug 4242 list_app 1 [(s_emailsMimeType, [4242, 1, 1, 13])] MoveAction
     = Inr (False,
            \<lparr>m_emails =
               [\<lparr>folderName = ''Inbox'', emails = [''Call your mother'', ''Customer request'', ''Spam 1'']\<rparr>,
                \<lparr>folderName = ''Customers'', emails = [''Old customer'', ''Urgent'']\<rparr>],
             folderItems = [1, 2],
             emailItems = [(11, ''Call your mother''), (12, ''Customer request''), (14, ''Spam 1'')]\<rparr>)"
  by (simp add: FoldersListWidget_dropMimeData_def list_app_def Q_ASSERT_def mime_data_def atEnd_def
        read_int_def read_QList_def Let_def folder_at_def set_folder_def removeAt_def inbox_def
        customers_def)

text \<open>
  C1, as stated, fails. The handler of the folders model compares no process id, and
  its payload carries none: the payload that a drag of "Urgent" out of the inbox
  produces, in whichever process, is accepted on another folder and the email is
  appended. And the two widgets dereference the item at the destination before they
  look at the payload: a drop that is not onto an item is undefined behaviour, also
  with an unrecognized mime type.
\<close>

theorem drops_accepted_or_undefined:
  "EmailsModel_mimeData inbox [createIndex 2 0 nullptr] = Inr [(s_emailsMimeType, [''Inbox'', ''Urgent''])]
   \<and> FoldersModel_dropMimeData folders_model [(s_emailsMimeType, [''Inbox'', ''Urgent''])] MoveAction
        (- 1) (- 1) (createIndex 1 0 nullptr)
      = Inr (True,
             \<lparr>m_emailFolders =
                [inbox, \<lparr>folderName = ''Customers'', emails = [''Old customer'', ''Urgent'']\<rparr>],
              dataChanged = [(createIndex 1 0 nullptr, createIndex 1 0 nullptr)]\<rparr>)
   \<and> \<not> hasFormat [(''text/plain'', [4242 :: int, 1, 1, 13])] s_emailsMimeType
   \<and> FoldersListWidget_dropMimeData Debug 4242 list_app 2 [(''text/plain'', [4242, 1, 1, 13])] MoveAction
      = Inl UndefinedBehaviour
   \<and> FoldersTableWidget_dropMimeData Debug 4242 table_app 2 0 [(''text/plain'', [4242, 1, 1, 13])] MoveAction
      = Inl UndefinedBehaviour"
  by code_simp

section \<open>The parent back-reference\<close>

lemma deref_snoc:
  "deref (h @ [x]) a = (if a = Suc (length h) then x else deref h a)"
  by (auto simp: deref_def nth_append)

lemma distinct_split_at:
  assumes "distinct xs" "r < length xs"
  shows "distinct (take r xs @ xs ! r # drop (Suc r) xs)"
proof -
  have "take r xs @ xs ! r # drop (Suc r) xs = xs"
    using assms(2) by (simp add: id_take_nth_drop [symmetric])
  with assms(1) show ?thesis by simp
qed

lemma distinct_take_drop:
  "distinct xs \<Longrightarrow> r < length xs \<Longrightarrow> xs ! r \<notin> set (take r xs @ drop (Suc r) xs)"
  using distinct_split_at [of xs r] by auto

lemma set_take_drop_subset:
  "set (take r xs @ drop (Suc r) xs) \<subseteq> set xs"
  by (auto dest: in_set_takeD in_set_dropD)

lemma distinct_take_drop2:
  "distinct xs \<Longrightarrow> distinct (take r xs @ drop (Suc r) xs)"
proof (cases "r < length xs")
  case True
  assume "distinct xs"
  from distinct_split_at [OF this True] show ?thesis by auto
next
  case False
  assume "distinct xs"
  with False show ?thesis by simp
qed

lemma set_insert_at:
  "set (take r xs @ c # drop r xs) = insert c (set xs)"
proof -
  have "set (take r xs) \<union> set (drop r xs) = set xs"
    by (metis append_take_drop_id set_append)
  then show ?thesis by auto
qed

lemma distinct_insert_at:
  assumes "distinct xs" "c \<notin> set xs"
  shows "distinct (take r xs @ c # drop r xs)"
proof -
  have "distinct (take r xs @ drop r xs)" using assms(1) by simp
  then have d: "distinct (take r xs) \<and> distinct (drop r xs) \<and> set (take r xs) \<inter> set (drop r xs) = {}"
    by (simp only: distinct_append)
  from assms(2) have "c \<notin> set (take r xs)" "c \<notin> set (drop r xs)"
    by (auto dest: in_set_takeD in_set_dropD)
  with d show ?thesis by auto
qed

lemma deref_valid: "deref h a = Some n \<Longrightarrow> a \<noteq> Suc (length h)"
  by (auto simp: deref_def split: if_splits)

lemma store_inv_MakeNode:
  assumes "store_inv root s" "step_op s (MakeNode dat parent) = Inr s'"
  shows "store_inv root s'"
proof -
  let ?h = "heap s"
  let ?a = "Suc (length ?h)"
  let ?n = "\<lparr>m_childNodes = [], m_itemData = dat, m_parentNode = parent\<rparr>"
  from assms(2) have s': "s' = \<lparr>heap = ?h @ [Some ?n], held = ?a # held s\<rparr>"
    by (auto simp: make_unique_TreeNode_def)
  have d: "deref (heap s') x = (if x = ?a then Some ?n else deref ?h x)" for x
    by (simp add: s' deref_snoc)
  from assms(1) have pm: "parents_match ?h"
    and di: "\<And>p P. deref ?h p = Some P \<Longrightarrow> distinct (m_childNodes P)"
    and he: "\<And>c. c \<in> set (held s) \<Longrightarrow> deref ?h c \<noteq> None \<and> unowned ?h c"
    and ro: "\<exists>R. deref ?h root = Some R \<and> m_parentNode R = nullptr" "root \<notin> set (held s)" "unowned ?h root"
    by (auto simp: store_inv_def)
  have fresh: "deref ?h ?a = None" by (simp add: deref_def)
  have notchild: "?a \<notin> set (m_childNodes P)" if "deref ?h p = Some P" for p P
  proof
    assume "?a \<in> set (m_childNodes P)"
    with pm that obtain C where "deref ?h ?a = Some C" unfolding parents_match_def by blast
    with fresh show False by simp
  qed
  have 1: "parents_match (heap s')"
    unfolding parents_match_def
  proof (intro allI impI, elim conjE)
    fix p P c assume a: "deref (heap s') p = Some P" "c \<in> set (m_childNodes P)"
    show "\<exists>C. deref (heap s') c = Some C \<and> m_parentNode C = p"
    proof (cases "p = ?a")
      case True
      with a d show ?thesis by auto
    next
      case False
      with a d have P: "deref ?h p = Some P" by auto
      with pm a(2) obtain C where C: "deref ?h c = Some C" "m_parentNode C = p"
        unfolding parents_match_def by blast
      then have "c \<noteq> ?a" using fresh by auto
      with C d show ?thesis by auto
    qed
  qed
  have 2: "distinct (m_childNodes P)" if "deref (heap s') p = Some P" for p P
    using that d [of p] di by (auto split: if_splits)
  have un: "unowned (heap s') c" if "unowned ?h c" for c
    unfolding unowned_def
  proof (intro allI impI)
    fix p P assume "deref (heap s') p = Some P"
    then show "c \<notin> set (m_childNodes P)"
      using d [of p] that by (auto simp: unowned_def split: if_splits)
  qed
  have una: "unowned (heap s') ?a"
    unfolding unowned_def
  proof (intro allI impI)
    fix p P assume "deref (heap s') p = Some P"
    then show "?a \<notin> set (m_childNodes P)"
      using d [of p] notchild by (auto split: if_splits)
  qed
  have 3: "deref (heap s') c \<noteq> None \<and> unowned (heap s') c" if "c \<in> set (held s')" for c
    using that he un una d [of c] by (auto simp: s')
  from ro(1) obtain R where R: "deref ?h root = Some R" "m_parentNode R = nullptr" by blast
  then have "root \<noteq> ?a" using fresh by auto
  with R d ro un have 4: "\<exists>R. deref (heap s') root = Some R \<and> m_parentNode R = nullptr"
     "root \<notin> set (held s')" "unowned (heap s') root"
    by (auto simp: s')
  from 1 2 3 4 show ?thesis unfolding store_inv_def by blast
qed


lemma store_invD:
  assumes "store_inv root s"
  shows "parents_match (heap s)"
    and "\<And>p P. deref (heap s) p = Some P \<Longrightarrow> distinct (m_childNodes P)"
    and "\<And>c. c \<in> set (held s) \<Longrightarrow> deref (heap s) c \<noteq> None"
    and "\<And>c. c \<in> set (held s) \<Longrightarrow> unowned (heap s) c"
    and "\<exists>R. deref (heap s) root = Some R \<and> m_parentNode R = nullptr"
    and "root \<notin> set (held s)"
    and "unowned (heap s) root"
  using assms by (auto simp: store_inv_def)

lemma parents_matchD:
  "parents_match h \<Longrightarrow> deref h p = Some P \<Longrightarrow> c \<in> set (m_childNodes P) \<Longrightarrow>
   \<exists>C. deref h c = Some C \<and> m_parentNode C = p"
  unfolding parents_match_def by blast

lemma unownedD: "unowned h c \<Longrightarrow> deref h p = Some P \<Longrightarrow> c \<notin> set (m_childNodes P)"
  unfolding unowned_def by blast

lemma store_inv_AppendChild:
  assumes inv: "store_inv root s" and step: "step_op s (AppendChild this child) = Inr s'"
    and own: "child \<in> set (held s)" and par: "TreeNode_parentNode (heap s) child = Inr this"
  shows "store_inv root s'"
proof -
  let ?h = "heap s"
  note I = store_invD [OF inv]
  from step obtain N where N: "deref ?h this = Some N"
    and h': "heap s' = store ?h this (N\<lparr>m_childNodes := m_childNodes N @ [child]\<rparr>)"
    and held': "held s' = removeAll child (held s)"
    by (auto simp: TreeNode_appendChild_def split: option.splits)
  let ?N' = "N\<lparr>m_childNodes := m_childNodes N @ [child]\<rparr>"
  have d: "deref (heap s') x = (if x = this then Some ?N' else deref ?h x)" for x
    by (simp add: h' deref_store [OF N])
  from par obtain C where C: "deref ?h child = Some C" "m_parentNode C = this"
    by (auto simp: TreeNode_parentNode_def split: option.splits)
  have live: "\<exists>X'. deref (heap s') x = Some X' \<and> m_parentNode X' = m_parentNode X"
    if "deref ?h x = Some X" for x X
    using that N d [of x] by auto
  have kids: "set (m_childNodes P') \<subseteq> insert child (set (m_childNodes P))
              \<and> (p \<noteq> this \<longrightarrow> P' = P) \<and> (p = this \<longrightarrow> P = N \<and> P' = ?N')"
    if "deref (heap s') p = Some P'" "deref ?h p = Some P" for p P P'
    using that N d [of p] by (auto split: if_splits)
  have ex: "\<exists>P. deref ?h p = Some P" if "deref (heap s') p = Some P'" for p P'
    using that N d [of p] by (auto split: if_splits)
  have child_free: "child \<notin> set (m_childNodes P)" if "deref ?h p = Some P" for p P
    using unownedD [OF I(4) [OF own] that] .
  have 1: "parents_match (heap s')"
    unfolding parents_match_def
  proof (intro allI impI, elim conjE)
    fix p P' c assume a: "deref (heap s') p = Some P'" "c \<in> set (m_childNodes P')"
    from ex [OF a(1)] obtain P where P: "deref ?h p = Some P" ..
    from kids [OF a(1) P] a(2) have cases: "c = child \<or> c \<in> set (m_childNodes P)" by auto
    show "\<exists>C. deref (heap s') c = Some C \<and> m_parentNode C = p"
    proof (cases "c \<in> set (m_childNodes P)")
      case True
      from parents_matchD [OF I(1) P True] obtain X where "deref ?h c = Some X" "m_parentNode X = p"
        by blast
      with live [of c X] show ?thesis by auto
    next
      case False
      with cases have c: "c = child" by simp
      with False kids [OF a(1) P] a(2) have "p = this" by auto
      with live [OF C(1)] C(2) c show ?thesis by auto
    qed
  qed
  have 2: "distinct (m_childNodes P')" if "deref (heap s') p = Some P'" for p P'
  proof -
    from ex [OF that] obtain P where P: "deref ?h p = Some P" ..
    show ?thesis
    proof (cases "p = this")
      case True
      with kids [OF that P] have "P' = ?N'" "P = N" by auto
      with I(2) [OF P] child_free [OF P] show ?thesis by simp
    next
      case False
      with kids [OF that P] I(2) [OF P] show ?thesis by simp
    qed
  qed
  have un: "unowned (heap s') c" if "unowned ?h c" "c \<noteq> child" for c
    unfolding unowned_def
  proof (intro allI impI)
    fix p P' assume a: "deref (heap s') p = Some P'"
    from ex [OF a] obtain P where P: "deref ?h p = Some P" ..
    from kids [OF a P] unownedD [OF that(1) P] that(2) show "c \<notin> set (m_childNodes P')" by auto
  qed
  have 3: "deref (heap s') c \<noteq> None \<and> unowned (heap s') c" if "c \<in> set (held s')" for c
  proof -
    from that have c: "c \<in> set (held s)" "c \<noteq> child" by (auto simp: held')
    from I(3) [OF c(1)] obtain X where "deref ?h c = Some X" by auto
    from live [OF this] un [OF I(4) [OF c(1)] c(2)] show ?thesis by auto
  qed
  from I(5) obtain R where R: "deref ?h root = Some R" "m_parentNode R = nullptr" by blast
  from own I(6) have "root \<noteq> child" by auto
  with live [OF R(1)] R(2) un [OF I(7)] I(6)
  have 4: "\<exists>R. deref (heap s') root = Some R \<and> m_parentNode R = nullptr"
     "root \<notin> set (held s')" "unowned (heap s') root"
    by (auto simp: held')
  from 1 2 3 4 show ?thesis unfolding store_inv_def by blast
qed


lemma store_inv_InsertChild:
  assumes inv: "store_inv root s" and step: "step_op s (InsertChild this pos child) = Inr s'"
    and own: "child \<in> set (held s)"
  shows "store_inv root s'"
proof -
  let ?h = "heap s"
  note I = store_invD [OF inv]
  from step obtain C N1 where C: "deref ?h child = Some C"
    and N1: "deref (store ?h child (C\<lparr>m_parentNode := this\<rparr>)) this = Some N1"
    and pos: "0 \<le> pos" "pos \<le> int (length (m_childNodes N1))"
    and h': "heap s' = store (store ?h child (C\<lparr>m_parentNode := this\<rparr>)) this
                         (N1\<lparr>m_childNodes := take (nat pos) (m_childNodes N1) @ child # drop (nat pos) (m_childNodes N1)\<rparr>)"
    and held': "held s' = removeAll child (held s)"
    by (auto simp: TreeNode_insertChild_def Let_def split: option.splits if_splits)
  let ?C' = "C\<lparr>m_parentNode := this\<rparr>"
  let ?h1 = "store ?h child ?C'"
  let ?N' = "N1\<lparr>m_childNodes := take (nat pos) (m_childNodes N1) @ child # drop (nat pos) (m_childNodes N1)\<rparr>"
  have d1: "deref ?h1 x = (if x = child then Some ?C' else deref ?h x)" for x
    by (simp add: deref_store [OF C])
  have d: "deref (heap s') x = (if x = this then Some ?N' else deref ?h1 x)" for x
    by (simp add: h' deref_store [OF N1])
  from N1 d1 [of this] C obtain N where N: "deref ?h this = Some N"
    "m_childNodes N1 = m_childNodes N"
    by (auto split: if_splits)
  have live: "\<exists>X'. deref (heap s') x = Some X'
                \<and> m_parentNode X' = (if x = child then this else m_parentNode X)"
    if "deref ?h x = Some X" for x X
    using that N1 N C d [of x] d1 [of x] d1 [of this] by (auto split: if_splits)
  have ex: "\<exists>P. deref ?h p = Some P" if "deref (heap s') p = Some P'" for p P'
  proof (cases "p = this \<or> p = child")
    case True
    with N C show ?thesis by auto
  next
    case False
    with that d [of p] d1 [of p] show ?thesis by simp
  qed
  have kids: "m_childNodes P' = (if p = this
                then take (nat pos) (m_childNodes P) @ child # drop (nat pos) (m_childNodes P)
                else m_childNodes P)"
    if "deref (heap s') p = Some P'" "deref ?h p = Some P" for p P P'
    using that N N1 C d [of p] d1 [of p] d1 [of this] by (auto split: if_splits)
  have child_free: "child \<notin> set (m_childNodes P)" if "deref ?h p = Some P" for p P
    using unownedD [OF I(4) [OF own] that] .
  have kidset: "set (m_childNodes P') = (if p = this then insert child (set (m_childNodes P))
                                          else set (m_childNodes P))"
    if "deref (heap s') p = Some P'" "deref ?h p = Some P" for p P P'
  proof (cases "p = this")
    case True
    with kids [OF that] have "m_childNodes P'
        = take (nat pos) (m_childNodes P) @ child # drop (nat pos) (m_childNodes P)" by simp
    then have "set (m_childNodes P') = insert child (set (m_childNodes P))"
      by (simp only: set_insert_at)
    with True show ?thesis by simp
  next
    case False
    with kids [OF that] show ?thesis by simp
  qed
  have 1: "parents_match (heap s')"
    unfolding parents_match_def
  proof (intro allI impI, elim conjE)
    fix p P' c assume a: "deref (heap s') p = Some P'" "c \<in> set (m_childNodes P')"
    from ex [OF a(1)] obtain P where P: "deref ?h p = Some P" ..
    from kidset [OF a(1) P] a(2) have cases: "c = child \<and> p = this \<or> c \<in> set (m_childNodes P)"
      by (auto split: if_splits)
    show "\<exists>C. deref (heap s') c = Some C \<and> m_parentNode C = p"
    proof (cases "c \<in> set (m_childNodes P)")
      case True
      with child_free [OF P] have ne: "c \<noteq> child" by auto
      from parents_matchD [OF I(1) P True] obtain X where "deref ?h c = Some X" "m_parentNode X = p"
        by blast
      with live [of c X] ne show ?thesis by auto
    next
      case False
      with cases have "c = child" "p = this" by auto
      with live [OF C] show ?thesis by auto
    qed
  qed
  have 2: "distinct (m_childNodes P')" if "deref (heap s') p = Some P'" for p P'
  proof -
    from ex [OF that] obtain P where P: "deref ?h p = Some P" ..
    show ?thesis
    proof (cases "p = this")
      case True
      with kids [OF that P] have "m_childNodes P'
        = take (nat pos) (m_childNodes P) @ child # drop (nat pos) (m_childNodes P)" by simp
      with distinct_insert_at [OF I(2) [OF P] child_free [OF P], of "nat pos"]
      show ?thesis by (simp only:)
    next
      case False
      with kids [OF that P] I(2) [OF P] show ?thesis by simp
    qed
  qed
  have un: "unowned (heap s') c" if "unowned ?h c" "c \<noteq> child" for c
    unfolding unowned_def
  proof (intro allI impI)
    fix p P' assume a: "deref (heap s') p = Some P'"
    from ex [OF a] obtain P where P: "deref ?h p = Some P" ..
    from kidset [OF a P] unownedD [OF that(1) P] that(2) show "c \<notin> set (m_childNodes P')"
      by (auto split: if_splits)
  qed
  have 3: "deref (heap s') c \<noteq> None \<and> unowned (heap s') c" if "c \<in> set (held s')" for c
  proof -
    from that have c: "c \<in> set (held s)" "c \<noteq> child" by (auto simp: held')
    from I(3) [OF c(1)] obtain X where "deref ?h c = Some X" by auto
    from live [OF this] un [OF I(4) [OF c(1)] c(2)] show ?thesis by auto
  qed
  from I(5) obtain R where R: "deref ?h root = Some R" "m_parentNode R = nullptr" by blast
  from own I(6) have "root \<noteq> child" by auto
  with live [OF R(1)] R(2) un [OF I(7)] I(6)
  have 4: "\<exists>R. deref (heap s') root = Some R \<and> m_parentNode R = nullptr"
     "root \<notin> set (held s')" "unowned (heap s') root"
    by (auto simp: held')
  from 1 2 3 4 show ?thesis unfolding store_inv_def by blast
qed

lemma store_inv_TakeChild:
  assumes inv: "store_inv root s" and step: "step_op s (TakeChild this row) = Inr s'"
  shows "store_inv root s'"
proof -
  let ?h = "heap s"
  note I = store_invD [OF inv]
  from step obtain N where N: "deref ?h this = Some N"
    and row: "0 \<le> row" "row < int (length (m_childNodes N))"
    and h': "heap s' = store ?h this
               (N\<lparr>m_childNodes := take (nat row) (m_childNodes N) @ drop (Suc (nat row)) (m_childNodes N)\<rparr>)"
    and held': "held s' = m_childNodes N ! nat row # held s"
    by (auto simp: TreeNode_takeChild_def split: option.splits if_splits)
  let ?cs = "m_childNodes N"
  let ?c = "?cs ! nat row"
  let ?N' = "N\<lparr>m_childNodes := take (nat row) ?cs @ drop (Suc (nat row)) ?cs\<rparr>"
  from row have r: "nat row < length ?cs" by simp
  then have cin: "?c \<in> set ?cs" by simp
  have d: "deref (heap s') x = (if x = this then Some ?N' else deref ?h x)" for x
    by (simp add: h' deref_store [OF N])
  have live: "\<exists>X'. deref (heap s') x = Some X' \<and> m_parentNode X' = m_parentNode X"
    if "deref ?h x = Some X" for x X
    using that N d [of x] by auto
  have ex: "\<exists>P. deref ?h p = Some P" if "deref (heap s') p = Some P'" for p P'
    using that N d [of p] by (auto split: if_splits)
  have kids: "m_childNodes P' = (if p = this
                then take (nat row) (m_childNodes P) @ drop (Suc (nat row)) (m_childNodes P)
                else m_childNodes P) \<and> (p = this \<longrightarrow> P = N)"
    if "deref (heap s') p = Some P'" "deref ?h p = Some P" for p P P'
    using that N d [of p] by (auto split: if_splits)
  have sub: "set (m_childNodes P') \<subseteq> set (m_childNodes P)"
    if "deref (heap s') p = Some P'" "deref ?h p = Some P" for p P P'
    using kids [OF that] set_take_drop_subset [of "nat row" "m_childNodes P"]
    by (auto split: if_splits)
  have 1: "parents_match (heap s')"
    unfolding parents_match_def
  proof (intro allI impI, elim conjE)
    fix p P' c assume a: "deref (heap s') p = Some P'" "c \<in> set (m_childNodes P')"
    from ex [OF a(1)] obtain P where P: "deref ?h p = Some P" ..
    from sub [OF a(1) P] a(2) have "c \<in> set (m_childNodes P)" by auto
    from parents_matchD [OF I(1) P this] obtain X where "deref ?h c = Some X" "m_parentNode X = p"
      by blast
    with live [of c X] show "\<exists>C. deref (heap s') c = Some C \<and> m_parentNode C = p" by auto
  qed
  have 2: "distinct (m_childNodes P')" if "deref (heap s') p = Some P'" for p P'
  proof -
    from ex [OF that] obtain P where P: "deref ?h p = Some P" ..
    show ?thesis
    proof (cases "p = this")
      case True
      with kids [OF that P] have "m_childNodes P'
        = take (nat row) (m_childNodes P) @ drop (Suc (nat row)) (m_childNodes P)" by simp
      with distinct_take_drop2 [OF I(2) [OF P], of "nat row"]
      show ?thesis by (simp only:)
    next
      case False
      with kids [OF that P] I(2) [OF P] show ?thesis by simp
    qed
  qed
  have un: "unowned (heap s') c" if "unowned ?h c" for c
    unfolding unowned_def
  proof (intro allI impI)
    fix p P' assume a: "deref (heap s') p = Some P'"
    from ex [OF a] obtain P where P: "deref ?h p = Some P" ..
    from sub [OF a P] unownedD [OF that(1) P] show "c \<notin> set (m_childNodes P')" by auto
  qed
  from parents_matchD [OF I(1) N cin] obtain X where X: "deref ?h ?c = Some X" "m_parentNode X = this"
    by blast
  have unc: "unowned (heap s') ?c"
    unfolding unowned_def
  proof (intro allI impI)
    fix p P' assume a: "deref (heap s') p = Some P'"
    from ex [OF a] obtain P where P: "deref ?h p = Some P" ..
    show "?c \<notin> set (m_childNodes P')"
    proof (cases "p = this")
      case True
      with kids [OF a P] have "m_childNodes P' = take (nat row) ?cs @ drop (Suc (nat row)) ?cs"
        by auto
      with distinct_take_drop [OF I(2) [OF N] r] show ?thesis by simp
    next
      case False
      show ?thesis
      proof
        assume "?c \<in> set (m_childNodes P')"
        with sub [OF a P] have "?c \<in> set (m_childNodes P)" by auto
        from parents_matchD [OF I(1) P this] X have "p = this" by auto
        with False show False by simp
      qed
    qed
  qed
  have 3: "deref (heap s') c \<noteq> None \<and> unowned (heap s') c" if "c \<in> set (held s')" for c
  proof (cases "c = ?c")
    case True
    with live [OF X(1)] unc show ?thesis by auto
  next
    case False
    with that have c: "c \<in> set (held s)" by (auto simp: held')
    from I(3) [OF c] obtain Y where "deref ?h c = Some Y" by auto
    from live [OF this] un [OF I(4) [OF c]] show ?thesis by auto
  qed
  from I(5) obtain R where R: "deref ?h root = Some R" "m_parentNode R = nullptr" by blast
  from unownedD [OF I(7) N] cin have "root \<noteq> ?c" by auto
  with live [OF R(1)] R(2) un [OF I(7)] I(6)
  have 4: "\<exists>R. deref (heap s') root = Some R \<and> m_parentNode R = nullptr"
     "root \<notin> set (held s')" "unowned (heap s') root"
    by (auto simp: held')
  from 1 2 3 4 show ?thesis unfolding store_inv_def by blast
qed

lemma store_inv_step:
  assumes "store_inv root s" "step_op s x = Inr s'" "owns s x" "names_parent s x"
  shows "store_inv root s'"
proof (cases x)
  case (MakeNode dat parent)
  with assms show ?thesis by (auto intro: store_inv_MakeNode)
next
  case (AppendChild this child)
  with assms show ?thesis by (auto intro: store_inv_AppendChild)
next
  case (InsertChild this pos child)
  with assms show ?thesis by (auto intro: store_inv_InsertChild)
next
  case (TakeChild this row)
  with assms show ?thesis by (auto intro: store_inv_TakeChild)
qed

lemma store_inv_run:
  "store_inv root s \<Longrightarrow> run_ops s ops = Inr s' \<Longrightarrow> along owns s ops \<Longrightarrow>
   along names_parent s ops \<Longrightarrow> store_inv root s'"
proof (induction ops arbitrary: s)
  case Nil
  then show ?case by simp
next
  case (Cons x xs)
  from Cons.prems(2) obtain s1 where s1: "step_op s x = Inr s1" "run_ops s1 xs = Inr s'"
    by (auto split: sum.splits)
  from Cons.prems(3,4) s1(1) have ok: "owns s x" "names_parent s x"
    "along owns s1 xs" "along names_parent s1 xs" by auto
  from store_inv_step [OF Cons.prems(1) s1(1) ok(1,2)] have "store_inv root s1" .
  from Cons.IH [OF this s1(2) ok(3,4)] show ?case .
qed


lemma store_inv_root_only: "store_inv 1 (root_only dat)"
  by (auto simp: store_inv_def root_only_def make_unique_TreeNode_def parents_match_def
        unowned_def deref_def)

text \<open>
  C3, as amended. In every tree that a client builds from a parentless root by
  constructing nodes and calling \<open>appendChild\<close>, \<open>insertChild\<close> and \<open>takeChild\<close>, where
  every node passed in is a \<open>unique_ptr\<close> the client holds and the parent
  back-reference of every node passed to \<open>appendChild\<close> names the receiving node at
  the moment of the call, the parent back-reference of every child is the node whose
  child sequence holds it, and the root has no parent. \<open>insertChild\<close> sets the
  back-reference itself; \<open>appendChild\<close> leaves it as it finds it.
\<close>

theorem parent_matches_owner_after_disciplined_run:
  assumes "run_ops (root_only dat) ops = Inr s"
    and "along owns (root_only dat) ops"
    and "along names_parent (root_only dat) ops"
  shows "(\<forall>p P c. deref (heap s) p = Some P \<and> c \<in> set (m_childNodes P)
            \<longrightarrow> TreeNode_parentNode (heap s) c = Inr p)
       \<and> TreeNode_parentNode (heap s) 1 = Inr nullptr"
proof -
  from store_inv_run [OF store_inv_root_only assms] have inv: "store_inv 1 s" .
  note I = store_invD [OF inv]
  have "TreeNode_parentNode (heap s) c = Inr p"
    if "deref (heap s) p = Some P" "c \<in> set (m_childNodes P)" for p P c
    using parents_matchD [OF I(1) that] by (auto simp: TreeNode_parentNode_def)
  moreover from I(5) have "TreeNode_parentNode (heap s) 1 = Inr nullptr"
    by (auto simp: TreeNode_parentNode_def)
  ultimately show ?thesis by blast
qed

lemma scenario_owns:
  "along owns (root_only [QVariant_String ''Title'', QVariant_String ''Summary''])
     (build_ABC @ move_B_first)"
  by code_simp

lemma scenario_names_parent:
  "along names_parent (root_only [QVariant_String ''Title'', QVariant_String ''Summary''])
     (build_ABC @ move_B_first)"
  by code_simp

theorem parent_matches_owner_after_disciplined_run_witness:
  "\<exists>s root. run_ops (root_only [QVariant_String ''Title'', QVariant_String ''Summary''])
                (build_ABC @ move_B_first) = Inr s
     \<and> along owns (root_only [QVariant_String ''Title'', QVariant_String ''Summary''])
          (build_ABC @ move_B_first)
     \<and> along names_parent (root_only [QVariant_String ''Title'', QVariant_String ''Summary''])
          (build_ABC @ move_B_first)
     \<and> deref (heap s) 1 = Some root \<and> m_childNodes root = [3, 2, 4]
     \<and> TreeNode_parentNode (heap s) 3 = Inr 1
     \<and> TreeNode_parentNode (heap s) 2 = Inr 1
     \<and> TreeNode_parentNode (heap s) 4 = Inr 1
     \<and> TreeNode_parentNode (heap s) 1 = Inr nullptr"
proof -
  let ?s0 = "root_only [QVariant_String ''Title'', QVariant_String ''Summary'']"
  let ?ops = "build_ABC @ move_B_first"
  have e: "?s0 = empty_root" by (simp add: root_only_def empty_root_def)
  have run: "run_ops ?s0 ?ops = Inr \<lparr>heap =
            [Some \<lparr>m_childNodes = [3, 2, 4],
                   m_itemData = [QVariant_String ''Title'', QVariant_String ''Summary''],
                   m_parentNode = nullptr\<rparr>,
             Some \<lparr>m_childNodes = [], m_itemData = [QVariant_String ''A''], m_parentNode = 1\<rparr>,
             Some \<lparr>m_childNodes = [], m_itemData = [QVariant_String ''B''], m_parentNode = 1\<rparr>,
             Some \<lparr>m_childNodes = [], m_itemData = [QVariant_String ''C''], m_parentNode = 1\<rparr>],
          held = []\<rparr>" (is "_ = Inr ?s")
    by (simp add: e run_move_B_first)
  note o = scenario_owns and n = scenario_names_parent
  have r: "deref (heap ?s) 1 = Some \<lparr>m_childNodes = [3, 2, 4],
                   m_itemData = [QVariant_String ''Title'', QVariant_String ''Summary''],
                   m_parentNode = nullptr\<rparr>"
    by (simp add: deref_def)
  note A = parent_matches_owner_after_disciplined_run [OF run o n, THEN conjunct1, rule_format]
  note B = parent_matches_owner_after_disciplined_run [OF run o n, THEN conjunct2]
  let ?r = "\<lparr>m_childNodes = [3, 2, 4::nat],
                   m_itemData = [QVariant_String ''Title'', QVariant_String ''Summary''],
                   m_parentNode = nullptr\<rparr>"
  have 3: "TreeNode_parentNode (heap ?s) 3 = Inr 1"
    by (rule A [of 1 ?r 3]) (simp add: deref_def)
  have 2: "TreeNode_parentNode (heap ?s) 2 = Inr 1"
    by (rule A [of 1 ?r 2]) (simp add: deref_def)
  have 4: "TreeNode_parentNode (heap ?s) 4 = Inr 1"
    by (rule A [of 1 ?r 4]) (simp add: deref_def)
  have k: "m_childNodes ?r = [3, 2, 4]" by simp
  show ?thesis
    apply (rule exI [of _ ?s], rule exI [of _ ?r])
    apply (intro conjI)
    apply (rule run, rule o, rule n, rule r, rule k, rule 3, rule 2, rule 4, rule B)
    done
qed

text \<open>
  C3, as stated, fails: \<open>appendChild\<close> does not write the child. A node constructed
  with the default parent and appended to the root is the root's first child and still
  has no parent.
\<close>

theorem appended_child_keeps_constructor_parent:
  "\<exists>s. run_ops empty_root append_default = Inr s
     \<and> along owns empty_root append_default
     \<and> TreeNode_child (heap s) 1 0 = Inr 2
     \<and> TreeNode_parentNode (heap s) 2 = Inr nullptr
     \<and> TreeNode_parentNode (heap s) 2 \<noteq> Inr 1"
  by (simp add: empty_root_def append_default_def make_unique_TreeNode_def
        TreeNode_appendChild_def TreeNode_child_def TreeNode_parentNode_def deref_def store_def)

section \<open>Cloning subtrees and inserting the clones\<close>

lemma those_map_Some_iff:
  "those (map f xs) = Some ys \<longleftrightarrow> length ys = length xs \<and> (\<forall>i < length xs. f (xs ! i) = Some (ys ! i))"
proof (induction xs arbitrary: ys)
  case Nil
  then show ?case by auto
next
  case (Cons x xs)
  show ?case
  proof (cases "f x")
    case None
    then show ?thesis by (auto simp: All_less_Suc2)
  next
    case (Some y)
    show ?thesis
    proof (cases "those (map f xs)")
      case None
      with Some Cons.IH show ?thesis
        apply (auto simp: All_less_Suc2)
        by (metis length_Suc_conv nth_Cons_Suc)
    next
      case (Some zs)
      with \<open>f x = Some y\<close> Cons.IH [of zs] Cons.IH show ?thesis
        apply (cases ys)
         apply (auto simp: All_less_Suc2)
        done
    qed
  qed
qed

lemma those_map_cong:
  "(\<And>x. x \<in> set xs \<Longrightarrow> f x = g x) \<Longrightarrow> those (map f xs) = those (map g xs)"
  by (induction xs) (auto split: option.splits)

lemma those_map_mono:
  "those (map f xs) = Some ys \<Longrightarrow> (\<And>x y. x \<in> set xs \<Longrightarrow> f x = Some y \<Longrightarrow> g x = Some y) \<Longrightarrow>
   those (map g xs) = Some ys"
proof (induction xs arbitrary: ys)
  case Nil
  then show ?case by simp
next
  case (Cons x xs)
  from Cons.prems(1) obtain y zs where y: "f x = Some y" "those (map f xs) = Some zs" "ys = y # zs"
    by (auto split: option.splits)
  from Cons.IH [OF y(2)] Cons.prems(2) have "those (map g xs) = Some zs" by auto
  moreover from Cons.prems(2) [of x y] y(1) have "g x = Some y" by simp
  ultimately show ?case using y(3) by simp
qed

lemma subtree_Suc: "subtree n h a = Some t \<Longrightarrow> subtree (Suc n) h a = Some t"
proof (induction n arbitrary: a t)
  case 0
  then show ?case by simp
next
  case (Suc n)
  from Suc.prems obtain N ts where N: "deref h a = Some N"
    "those (map (subtree n h) (m_childNodes N)) = Some ts" "t = Tree (m_itemData N) ts"
    by (auto split: option.splits)
  from those_map_mono [OF N(2), of "subtree (Suc n) h"] Suc.IH
  have "those (map (subtree (Suc n) h) (m_childNodes N)) = Some ts" by blast
  with N show ?case by simp
qed

lemma subtree_mono: "subtree n h a = Some t \<Longrightarrow> n \<le> m \<Longrightarrow> subtree m h a = Some t"
  by (induction m) (auto simp: le_Suc_eq subtree_Suc simp del: subtree.simps)

lemma subtree_local:
  "(\<And>x. x \<in> set (nodes_of n h a) \<Longrightarrow> alike (deref h x) (deref h' x)) \<Longrightarrow>
   subtree n h' a = subtree n h a \<and> nodes_of n h' a = nodes_of n h a"
proof (induction n arbitrary: a)
  case 0
  then show ?case by simp
next
  case (Suc n)
  from Suc.prems [of a] have al: "alike (deref h a) (deref h' a)" by simp
  show ?case
  proof (cases "deref h a")
    case None
    with al show ?thesis by (simp add: alike_def)
  next
    case (Some N)
    with al obtain N' where N': "deref h' a = Some N'" "m_childNodes N' = m_childNodes N"
      "m_itemData N' = m_itemData N"
      by (auto simp: alike_def split: option.splits)
    have "subtree n h' c = subtree n h c \<and> nodes_of n h' c = nodes_of n h c"
      if "c \<in> set (m_childNodes N)" for c
    proof (rule Suc.IH)
      fix x assume "x \<in> set (nodes_of n h c)"
      with that Some have "x \<in> set (nodes_of (Suc n) h a)" by auto
      then show "alike (deref h x) (deref h' x)" by (rule Suc.prems)
    qed
    then have c1: "those (map (subtree n h') (m_childNodes N)) = those (map (subtree n h) (m_childNodes N))"
      and c2: "map (nodes_of n h') (m_childNodes N) = map (nodes_of n h) (m_childNodes N)"
      by (auto intro: those_map_cong)
    show ?thesis
      by (simp only: subtree.simps nodes_of.simps Some N' option.case c1 c2 simp_thms)
  qed
qed

lemma subtree_nodes_live:
  "subtree n h a = Some t \<Longrightarrow> x \<in> set (nodes_of n h a) \<Longrightarrow> deref h x \<noteq> None"
proof (induction n arbitrary: a t)
  case 0
  then show ?case by simp
next
  case (Suc n)
  from Suc.prems(1) obtain N ts where N: "deref h a = Some N"
    "those (map (subtree n h) (m_childNodes N)) = Some ts"
    by (auto split: option.splits)
  show ?case
  proof (cases "x = a")
    case True
    with N show ?thesis by simp
  next
    case False
    with Suc.prems(2) N obtain c where c: "c \<in> set (m_childNodes N)" "x \<in> set (nodes_of n h c)"
      by auto
    from c(1) obtain i where i: "i < length (m_childNodes N)" "m_childNodes N ! i = c"
      by (auto simp: in_set_conv_nth)
    with N(2) have "subtree n h c = Some (ts ! i)" by (auto simp: those_map_Some_iff)
    from Suc.IH [OF this c(2)] show ?thesis .
  qed
qed

lemma those_append:
  "those (xs @ ys) =
     (case those xs of None \<Rightarrow> None
      | Some a \<Rightarrow> (case those ys of None \<Rightarrow> None | Some b \<Rightarrow> Some (a @ b)))"
  by (induction xs) (auto split: option.splits)

lemma clone_children_mono:
  "(\<And>h c p r. f h c p = Inr r \<Longrightarrow> g h c p = Inr r) \<Longrightarrow>
   clone_children f h copy cs = Inr r \<Longrightarrow> clone_children g h copy cs = Inr r"
proof (induction cs arbitrary: h)
  case Nil
  then show ?case by simp
next
  case (Cons c cs)
  from Cons.prems(2) obtain h1 c' h2 where s: "f h c copy = Inr (h1, c')"
    "TreeNode_appendChild h1 copy c' = Inr h2" "clone_children f h2 copy cs = Inr r"
    by (auto split: sum.splits prod.splits)
  from Cons.prems(1) [OF s(1)] s(2) Cons.IH [OF Cons.prems(1) s(3)] show ?case by simp
qed

lemma clone_under_Suc:
  "clone_under n h a p = Inr r \<Longrightarrow> clone_under (Suc n) h a p = Inr r"
proof (induction n arbitrary: h a p r)
  case 0
  then show ?case by simp
next
  case (Suc n)
  from Suc.prems obtain N h2 where N: "deref h a = Some N"
    "clone_children (clone_under n) (fst (make_unique_TreeNode h (m_itemData N) p))
        (snd (make_unique_TreeNode h (m_itemData N) p)) (m_childNodes N) = Inr h2"
    "r = (h2, snd (make_unique_TreeNode h (m_itemData N) p))"
    by (auto split: option.splits sum.splits prod.splits)
  from clone_children_mono [of "clone_under n" "clone_under (Suc n)", OF _ N(2)] Suc.IH
  have "clone_children (clone_under (Suc n)) (fst (make_unique_TreeNode h (m_itemData N) p))
        (snd (make_unique_TreeNode h (m_itemData N) p)) (m_childNodes N) = Inr h2"
    by blast
  with N(1,3) show ?case by (simp add: case_prod_beta)
qed

lemma clone_under_mono:
  "clone_under n h a p = Inr r \<Longrightarrow> n \<le> m \<Longrightarrow> clone_under m h a p = Inr r"
  by (induction m) (auto simp: le_Suc_eq clone_under_Suc simp del: clone_under.simps)

lemma TreeNode_clone_mono:
  "TreeNode_clone n h a = Inr r \<Longrightarrow> n \<le> m \<Longrightarrow> TreeNode_clone m h a = Inr r"
  unfolding TreeNode_clone_def by (rule clone_under_mono)

lemma deref_le_length: "deref h x \<noteq> None \<Longrightarrow> x \<le> length h"
  by (auto simp: deref_def split: if_splits)

lemma alike_refl [simp]: "alike x x"
  by (simp add: alike_def split: option.splits)

lemma subtree_frame:
  assumes "subtree n h a = Some t" and "\<forall>x \<le> length h. deref h' x = deref h x"
  shows "subtree n h' a = Some t" and "nodes_of n h' a = nodes_of n h a"
proof -
  have "alike (deref h x) (deref h' x)" if "x \<in> set (nodes_of n h a)" for x
  proof -
    from subtree_nodes_live [OF assms(1) that] have "x \<le> length h" by (rule deref_le_length)
    with assms(2) show ?thesis by simp
  qed
  from subtree_local [of n h a h', OF this] assms(1)
  show "subtree n h' a = Some t" "nodes_of n h' a = nodes_of n h a" by simp_all
qed

lemma clone_children_correct:
  assumes spec: "\<And>hc c p tc. subtree n hc c = Some tc \<Longrightarrow>
             \<exists>h1. f hc c p = Inr (h1, Suc (length hc)) \<and> clone_post n hc tc p h1"
  shows "length h < copy \<Longrightarrow> copy \<le> length hc \<Longrightarrow> \<forall>x \<le> length h. deref hc x = deref h x \<Longrightarrow>
     deref hc copy = Some \<lparr>m_childNodes = done, m_itemData = D, m_parentNode = par\<rparr> \<Longrightarrow>
     those (map (subtree n hc) done) = Some tsd \<Longrightarrow>
     \<forall>d \<in> set done. \<forall>x \<in> set (nodes_of n hc d). copy < x \<Longrightarrow>
     those (map (subtree n h) cs) = Some tsc \<Longrightarrow>
     \<exists>h' done'. clone_children f hc copy cs = Inr h' \<and> length hc \<le> length h'
        \<and> (\<forall>x \<le> length h. deref h' x = deref h x)
        \<and> deref h' copy = Some \<lparr>m_childNodes = done @ done', m_itemData = D, m_parentNode = par\<rparr>
        \<and> those (map (subtree n h') (done @ done')) = Some (tsd @ tsc)
        \<and> (\<forall>d \<in> set (done @ done'). \<forall>x \<in> set (nodes_of n h' d). copy < x)"
proof (induction cs arbitrary: hc "done" tsd tsc)
  case Nil
  then show ?case by auto
next
  case (Cons c cs)
  let ?N = "\<lparr>m_childNodes = done, m_itemData = D, m_parentNode = par\<rparr>"
  from Cons.prems(7) obtain tc tcs where tc: "subtree n h c = Some tc"
    "those (map (subtree n h) cs) = Some tcs" "tsc = tc # tcs"
    by (auto split: option.splits)
  from subtree_frame(1) [OF tc(1) Cons.prems(3)] have "subtree n hc c = Some tc" .
  from spec [OF this, of copy] obtain h1 where h1: "f hc c copy = Inr (h1, Suc (length hc))"
    "clone_post n hc tc copy h1" by blast
  let ?c' = "Suc (length hc)"
  from h1(2) have len1: "length hc < length h1"
    and fr1: "\<And>x. x \<le> length hc \<Longrightarrow> deref h1 x = deref hc x"
    and st1: "subtree n h1 ?c' = Some tc"
    and nd1: "\<And>x. x \<in> set (nodes_of n h1 ?c') \<Longrightarrow> length hc < x"
    by (auto simp: clone_post_def)
  from fr1 [OF Cons.prems(2)] Cons.prems(4) have cp1: "deref h1 copy = Some ?N" by simp
  let ?N2 = "\<lparr>m_childNodes = (done @ [?c']), m_itemData = D, m_parentNode = par\<rparr>"
  let ?h2 = "store h1 copy ?N2"
  from cp1 have app: "TreeNode_appendChild h1 copy ?c' = Inr ?h2"
    by (simp add: TreeNode_appendChild_def)
  have d2: "deref ?h2 x = (if x = copy then Some ?N2 else deref h1 x)" for x
    by (simp add: deref_store [OF cp1])
  have p2: "copy \<le> length ?h2" using Cons.prems(2) len1 by simp
  have p3: "\<forall>x \<le> length h. deref ?h2 x = deref h x"
  proof (intro allI impI)
    fix x assume x: "x \<le> length h"
    with Cons.prems(1,2) have "x \<noteq> copy" "x \<le> length hc" by auto
    with d2 [of x] fr1 [of x] Cons.prems(3) x show "deref ?h2 x = deref h x" by simp
  qed
  have p4: "deref ?h2 copy = Some ?N2" by (simp add: d2)
  have old: "subtree n ?h2 d = subtree n hc d \<and> nodes_of n ?h2 d = nodes_of n hc d"
    if "d \<in> set done" for d
  proof (rule subtree_local)
    fix x assume x: "x \<in> set (nodes_of n hc d)"
    from that Cons.prems(5) obtain td where "subtree n hc d = Some td"
      by (auto simp: those_map_Some_iff in_set_conv_nth)
    from subtree_nodes_live [OF this x] have "x \<le> length hc" by (rule deref_le_length)
    moreover from Cons.prems(6) that x have "x \<noteq> copy" by auto
    ultimately show "alike (deref hc x) (deref ?h2 x)" using d2 [of x] fr1 [of x] by simp
  qed
  have new: "subtree n ?h2 ?c' = subtree n h1 ?c' \<and> nodes_of n ?h2 ?c' = nodes_of n h1 ?c'"
  proof (rule subtree_local)
    fix x assume "x \<in> set (nodes_of n h1 ?c')"
    from nd1 [OF this] Cons.prems(2) have "x \<noteq> copy" by auto
    then show "alike (deref h1 x) (deref ?h2 x)" using d2 [of x] by simp
  qed
  from old have "those (map (subtree n ?h2) done) = those (map (subtree n hc) done)"
    by (auto intro: those_map_cong)
  with Cons.prems(5) new st1 have p5: "those (map (subtree n ?h2) (done @ [?c'])) = Some (tsd @ [tc])"
    by (simp add: those_append)
  have p6: "\<forall>d \<in> set (done @ [?c']). \<forall>x \<in> set (nodes_of n ?h2 d). copy < x"
  proof (intro ballI)
    fix d x assume d: "d \<in> set (done @ [?c'])" and x: "x \<in> set (nodes_of n ?h2 d)"
    show "copy < x"
    proof (cases "d \<in> set done")
      case True
      with old x Cons.prems(6) show ?thesis by auto
    next
      case False
      with d have "d = ?c'" by simp
      with new x nd1 [of x] Cons.prems(2) show ?thesis by auto
    qed
  qed
  from Cons.IH [OF Cons.prems(1) p2 p3 p4 p5 p6 tc(2)]
  obtain h' done' where r: "clone_children f ?h2 copy cs = Inr h'" "length ?h2 \<le> length h'"
    "\<forall>x \<le> length h. deref h' x = deref h x"
    "deref h' copy = Some \<lparr>m_childNodes = (done @ [?c']) @ done', m_itemData = D, m_parentNode = par\<rparr>"
    "those (map (subtree n h') ((done @ [?c']) @ done')) = Some ((tsd @ [tc]) @ tcs)"
    "\<forall>d \<in> set ((done @ [?c']) @ done'). \<forall>x \<in> set (nodes_of n h' d). copy < x"
    by blast
  have "clone_children f hc copy (c # cs) = Inr h'"
    using h1(1) app r(1) by simp
  moreover have "length hc \<le> length h'" using len1 r(2) by simp
  ultimately show ?case using r(3,4,5,6) tc(3)
    by (intro exI [of _ h'] exI [of _ "?c' # done'"]) simp
qed

lemma clone_under_correct:
  "subtree n h a = Some t \<Longrightarrow>
   \<exists>h'. clone_under n h a par = Inr (h', Suc (length h)) \<and> clone_post n h t par h'"
proof (induction n arbitrary: h a par t)
  case 0
  then show ?case by simp
next
  case (Suc n)
  from Suc.prems obtain N ts where N: "deref h a = Some N"
    "those (map (subtree n h) (m_childNodes N)) = Some ts" "t = Tree (m_itemData N) ts"
    by (auto split: option.splits)
  let ?copy = "Suc (length h)"
  let ?D = "m_itemData N"
  let ?h1 = "h @ [Some \<lparr>m_childNodes = [], m_itemData = ?D, m_parentNode = par\<rparr>]"
  have mk: "make_unique_TreeNode h ?D par = (?h1, ?copy)" by (simp add: make_unique_TreeNode_def)
  have q3: "\<forall>x \<le> length h. deref ?h1 x = deref h x" by (simp add: deref_snoc)
  have q4: "deref ?h1 ?copy = Some \<lparr>m_childNodes = [], m_itemData = ?D, m_parentNode = par\<rparr>"
    by (simp add: deref_snoc)
  have spec: "\<exists>h1. clone_under n hc c p = Inr (h1, Suc (length hc)) \<and> clone_post n hc tc p h1"
    if "subtree n hc c = Some tc" for hc c p tc
    using Suc.IH [OF that] .
  from clone_children_correct [of n "clone_under n" h ?copy ?h1 "[]" ?D par "[]" "m_childNodes N" ts,
          OF spec _ _ q3 q4 _ _ N(2)]
  obtain h' done' where r: "clone_children (clone_under n) ?h1 ?copy (m_childNodes N) = Inr h'"
    "length ?h1 \<le> length h'" "\<forall>x \<le> length h. deref h' x = deref h x"
    "deref h' ?copy = Some \<lparr>m_childNodes = done', m_itemData = ?D, m_parentNode = par\<rparr>"
    "those (map (subtree n h') done') = Some ts"
    "\<forall>d \<in> set done'. \<forall>x \<in> set (nodes_of n h' d). ?copy < x"
    by auto
  have 1: "clone_under (Suc n) h a par = Inr (h', ?copy)"
    using N(1) mk r(1) by simp
  have 2: "subtree (Suc n) h' ?copy = Some t" using r(4,5) N(3) by simp
  have "length h < x" if "d \<in> set done'" "x \<in> set (nodes_of n h' d)" for d x
    using r(6) that by (meson Suc_lessD)
  then have 3: "\<forall>x \<in> set (nodes_of (Suc n) h' ?copy). length h < x" using r(4) by auto
  from 1 2 3 r(2,3,4) show ?case
    unfolding clone_post_def by (intro exI [of _ h']) simp
qed

lemma TreeNode_clone_correct:
  "subtree n h a = Some t \<Longrightarrow>
   \<exists>h'. TreeNode_clone n h a = Inr (h', Suc (length h)) \<and> clone_post n h t nullptr h'"
  unfolding TreeNode_clone_def by (rule clone_under_correct)

lemma clone_children_frame:
  assumes spec: "\<And>hc c p h1 c'. f hc c p = Inr (h1, c') \<Longrightarrow>
                   length hc < length h1 \<and> (\<forall>x \<le> length hc. deref h1 x = deref hc x)"
  shows "clone_children f hc copy cs = Inr h' \<Longrightarrow> k < copy \<Longrightarrow> k \<le> length hc \<Longrightarrow>
         length hc \<le> length h' \<and> (\<forall>x \<le> k. deref h' x = deref hc x)"
proof (induction cs arbitrary: hc)
  case Nil
  then show ?case by simp
next
  case (Cons c cs)
  from Cons.prems(1) obtain h1 c' h2 where s: "f hc c copy = Inr (h1, c')"
    "TreeNode_appendChild h1 copy c' = Inr h2" "clone_children f h2 copy cs = Inr h'"
    by (auto split: sum.splits prod.splits)
  from spec [OF s(1)] have f1: "length hc < length h1" "\<And>x. x \<le> length hc \<Longrightarrow> deref h1 x = deref hc x"
    by auto
  from s(2) obtain N where N: "deref h1 copy = Some N"
    "h2 = store h1 copy (N\<lparr>m_childNodes := m_childNodes N @ [c']\<rparr>)"
    by (auto simp: TreeNode_appendChild_def split: option.splits)
  have f2: "length h2 = length h1" "\<And>x. x \<noteq> copy \<Longrightarrow> deref h2 x = deref h1 x"
    by (simp_all add: N(2) deref_store_other)
  from Cons.IH [OF s(3) Cons.prems(2)] Cons.prems(3) f1(1) f2(1)
  have r: "length h2 \<le> length h'" "\<And>x. x \<le> k \<Longrightarrow> deref h' x = deref h2 x" by auto
  have "deref h' x = deref hc x" if "x \<le> k" for x
    using r(2) [OF that] f2(2) [of x] f1(2) [of x] that Cons.prems(2,3) by auto
  with r(1) f1(1) f2(1) show ?case by auto
qed

lemma clone_under_frame:
  "clone_under n h a par = Inr (h', c) \<Longrightarrow>
   c = Suc (length h) \<and> length h < length h' \<and> (\<forall>x \<le> length h. deref h' x = deref h x)"
proof (induction n arbitrary: h a par h' c)
  case 0
  then show ?case by simp
next
  case (Suc n)
  from Suc.prems obtain N where N: "deref h a = Some N"
    "clone_children (clone_under n)
       (h @ [Some \<lparr>m_childNodes = [], m_itemData = m_itemData N, m_parentNode = par\<rparr>])
       (Suc (length h)) (m_childNodes N) = Inr h'" "c = Suc (length h)"
    by (auto simp: make_unique_TreeNode_def split: option.splits sum.splits)
  let ?h1 = "h @ [Some \<lparr>m_childNodes = [], m_itemData = m_itemData N, m_parentNode = par\<rparr>]"
  have spec: "length hc < length h1 \<and> (\<forall>x \<le> length hc. deref h1 x = deref hc x)"
    if "clone_under n hc c p = Inr (h1, c')" for hc c p h1 c'
    using Suc.IH [OF that] by simp
  from clone_children_frame [of "clone_under n" ?h1 "Suc (length h)" "m_childNodes N" h' "length h",
         OF spec N(2)]
  have "length ?h1 \<le> length h'" "\<forall>x \<le> length h. deref h' x = deref ?h1 x" by auto
  with N(3) show ?case by (auto simp: deref_snoc)
qed

lemma TreeNode_clone_frame:
  "TreeNode_clone n h a = Inr (h', c) \<Longrightarrow>
   c = Suc (length h) \<and> length h < length h' \<and> (\<forall>x \<le> length h. deref h' x = deref h x)"
  unfolding TreeNode_clone_def by (rule clone_under_frame)

lemma clone_result_any_fuel:
  assumes "TreeNode_clone f h a = Inr (h1, c)" and "subtree n h a = Some t"
  shows "clone_post n h t nullptr h1"
proof -
  from TreeNode_clone_correct [OF assms(2)] obtain h' where
    h': "TreeNode_clone n h a = Inr (h', Suc (length h))" "clone_post n h t nullptr h'" by blast
  from TreeNode_clone_mono [OF h'(1), of "max n f"] TreeNode_clone_mono [OF assms(1), of "max n f"]
  have "h' = h1" by simp
  with h'(2) show ?thesis by simp
qed

lemma insertChild_success:
  assumes "TreeNode_insertChild h1 p row c = Inr h2" "p \<noteq> c"
  obtains C P where "deref h1 c = Some C" "deref h1 p = Some P" "0 \<le> row"
    "row \<le> int (length (m_childNodes P))"
    "\<And>x. deref h2 x = (if x = p then Some (P\<lparr>m_childNodes :=
                 take (nat row) (m_childNodes P) @ c # drop (nat row) (m_childNodes P)\<rparr>)
             else if x = c then Some (C\<lparr>m_parentNode := p\<rparr>) else deref h1 x)"
    "length h2 = length h1"
proof -
  from assms(1) obtain C N1 where C: "deref h1 c = Some C"
    and N1: "deref (store h1 c (C\<lparr>m_parentNode := p\<rparr>)) p = Some N1"
    and pos: "0 \<le> row" "row \<le> int (length (m_childNodes N1))"
    and h2: "h2 = store (store h1 c (C\<lparr>m_parentNode := p\<rparr>)) p
                         (N1\<lparr>m_childNodes := take (nat row) (m_childNodes N1) @ c # drop (nat row) (m_childNodes N1)\<rparr>)"
    by (auto simp: TreeNode_insertChild_def Let_def split: option.splits if_splits)
  from N1 assms(2) have P: "deref h1 p = Some N1" by (simp add: deref_store [OF C])
  have "deref h2 x = (if x = p then Some (N1\<lparr>m_childNodes :=
                 take (nat row) (m_childNodes N1) @ c # drop (nat row) (m_childNodes N1)\<rparr>)
             else if x = c then Some (C\<lparr>m_parentNode := p\<rparr>) else deref h1 x)" for x
    by (simp add: h2 deref_store [OF N1] deref_store [OF C])
  moreover have "length h2 = length h1" by (simp add: h2)
  ultimately show ?thesis using that C P pos by blast
qed

lemma insertChild_total:
  assumes "deref h1 c = Some C" "deref h1 p = Some P" "p \<noteq> c" "0 \<le> row"
    "row \<le> int (length (m_childNodes P))"
  shows "\<exists>h2. TreeNode_insertChild h1 p row c = Inr h2"
  using assms by (simp add: TreeNode_insertChild_def Let_def deref_store [OF assms(1)])

lemma TreeNode_row_cong:
  assumes "deref h' x = deref h x"
    and "\<And>N. deref h x = Some N \<Longrightarrow> deref h' (m_parentNode N) = deref h (m_parentNode N)"
  shows "TreeNode_row b h' x = TreeNode_row b h x"
  using assms by (auto simp: TreeNode_row_def split: option.splits)

lemma TreeModel_index_cong:
  assumes "rootNode m' = rootNode m"
    and "deref (mem m') (if isValid pidx then idx_ptr pidx else rootNode m)
           = deref (mem m) (if isValid pidx then idx_ptr pidx else rootNode m)"
  shows "TreeModel_index m' row column pidx = TreeModel_index m row column pidx"
  using assms
  by (cases "isValid pidx")
     (simp_all add: TreeModel_index_def hasIndex_def TreeModel_rowCount_def TreeModel_columnCount_def
        TreeNode_childCount_def TreeNode_columnCount_def TreeNode_child_def
        cong: sum.case_cong option.case_cong if_cong)

lemma siblingAtColumn_stable:
  assumes ok: "index_in_tree b m index"
    and root: "rootNode m' = rootNode m"
    and same0: "\<And>x. idx_model index \<and> idx_column index \<noteq> 0 \<Longrightarrow> x \<le> length (mem m) \<Longrightarrow>
               x \<noteq> idx_ptr index \<Longrightarrow> deref (mem m') x = deref (mem m) x"
    and ptr0: "\<And>N. idx_model index \<and> idx_column index \<noteq> 0 \<Longrightarrow> deref (mem m) (idx_ptr index) = Some N \<Longrightarrow>
               \<exists>N'. deref (mem m') (idx_ptr index) = Some N' \<and> m_parentNode N' = m_parentNode N"
  shows "siblingAtColumn b m' index 0 = siblingAtColumn b m index 0 \<and> index_in_tree b m' index"
proof (cases "idx_model index \<and> idx_column index \<noteq> 0")
  case False
  with ok show ?thesis by (auto simp: siblingAtColumn_def index_in_tree_def)
next
  case True
  note same = same0 [OF True] and ptr = ptr0 [OF True]
  let ?p = "idx_ptr index"
  from ok True obtain N PN where N: "deref (mem m) ?p = Some N" "m_parentNode N \<noteq> ?p"
    "deref (mem m) (m_parentNode N) = Some PN" "m_parentNode PN \<noteq> ?p" "?p \<noteq> rootNode m"
    "siblingAtColumn b m index 0 = Inr (createIndex (idx_row index) 0 ?p)"
    "isValid index"
    by (auto simp: index_in_tree_def split: option.splits)
  let ?P = "m_parentNode N"
  from ptr [OF N(1)] obtain N' where N': "deref (mem m') ?p = Some N'" "m_parentNode N' = ?P" by blast
  from N(3) have Ple: "?P \<le> length (mem m)" by (auto dest: deref_Some_bounds)
  from same [OF Ple N(2)] N(3) have P': "deref (mem m') ?P = Some PN" by simp
  have pn: "TreeNode_parentNode (mem m') ?p = TreeNode_parentNode (mem m) ?p"
    by (simp add: TreeNode_parentNode_def N N')
  have PP: "deref (mem m') (m_parentNode PN) = deref (mem m) (m_parentNode PN)"
    if "TreeNode_row b (mem m) ?P \<noteq> Inl UndefinedBehaviour"
  proof (cases "m_parentNode PN \<le> length (mem m)")
    case True
    from same [OF True N(4)] show ?thesis .
  next
    case False
    then have "deref (mem m) (m_parentNode PN) = None" "m_parentNode PN \<noteq> nullptr"
      by (auto simp: deref_def)
    with that N(3) show ?thesis by (simp add: TreeNode_row_def)
  qed
  from N(6) True have sib: "(case TreeModel_parent b m index of Inl e \<Rightarrow> Inl e
                               | Inr pi \<Rightarrow> TreeModel_index m (idx_row index) 0 pi)
                             = Inr (createIndex (idx_row index) 0 ?p)"
    by (simp add: siblingAtColumn_def sibling_def)
  then obtain pi where pi: "TreeModel_parent b m index = Inr pi"
    "TreeModel_index m (idx_row index) 0 pi = Inr (createIndex (idx_row index) 0 ?p)"
    by (auto split: sum.splits)
  from pi(1) N(7) have ifi: "TreeModel_indexForItem b m ?P = Inr pi"
    by (simp add: TreeModel_parent_def TreeNode_parentNode_def N)
  have A: "TreeModel_parent b m' index = Inr pi"
  proof (cases "?P = rootNode m")
    case True
    with ifi root N(7) show ?thesis
      by (simp add: TreeModel_parent_def TreeNode_parentNode_def N' TreeModel_indexForItem_def)
  next
    case False
    with ifi obtain r where r: "TreeNode_row b (mem m) ?P = Inr r"
      by (auto simp: TreeModel_indexForItem_def split: sum.splits)
    then have "TreeNode_row b (mem m) ?P \<noteq> Inl UndefinedBehaviour" by simp
    from PP [OF this] P' N(3)
    have "TreeNode_row b (mem m') ?P = TreeNode_row b (mem m) ?P"
      by (intro TreeNode_row_cong) auto
    with ifi root N(7) False show ?thesis
      by (simp add: TreeModel_parent_def TreeNode_parentNode_def N' TreeModel_indexForItem_def)
  qed
  let ?q = "if isValid pi then idx_ptr pi else rootNode m"
  have q: "deref (mem m') ?q = deref (mem m) ?q"
  proof (cases "isValid pi")
    case True
    with ifi have "idx_ptr pi = ?P"
      by (auto simp: TreeModel_indexForItem_def createIndex_def QModelIndex_invalid_def isValid_def
               split: if_splits sum.splits)
    with True P' N(3) show ?thesis by simp
  next
    case False
    have "rootNode m \<le> length (mem m)"
    proof (rule ccontr)
      assume "\<not> rootNode m \<le> length (mem m)"
      then have "deref (mem m) (rootNode m) = None" by (simp add: deref_def)
      with pi(2) False N(7) show False
        by (simp add: TreeModel_index_def hasIndex_def TreeModel_rowCount_def isValid_def
              TreeNode_childCount_def createIndex_def QModelIndex_invalid_def split: if_splits)
    qed
    from same [OF this] N(5) False show ?thesis by auto
  qed
  from TreeModel_index_cong [OF root q] pi(2)
  have B: "TreeModel_index m' (idx_row index) 0 pi = Inr (createIndex (idx_row index) 0 ?p)" by simp
  from A B True have S: "siblingAtColumn b m' index 0 = Inr (createIndex (idx_row index) 0 ?p)"
    by (simp add: siblingAtColumn_def sibling_def)
  with N N' P' root True show ?thesis
    by (simp add: index_in_tree_def)
qed

lemma siblingAtColumn_defined:
  assumes "index_in_tree b m index"
  shows "\<exists>S. siblingAtColumn b m index 0 = Inr S
           \<and> TreeModel_nodeForIndex m S = TreeModel_nodeForIndex m index"
proof (cases "idx_model index \<and> idx_column index \<noteq> 0")
  case True
  with assms show ?thesis
    by (auto simp: index_in_tree_def TreeModel_nodeForIndex_def createIndex_def isValid_def
             split: option.splits)
next
  case False
  with assms show ?thesis
    by (auto simp: index_in_tree_def siblingAtColumn_def TreeModel_nodeForIndex_def
          QModelIndex_invalid_def isValid_def)
qed

lemma upt_blocks:
  "concat (map f [0..<Suc k]) = f 0 @ concat (map (\<lambda>i. f (Suc i)) [0..<k])"
proof -
  have "[0..<Suc k] = 0 # map Suc [0..<k]"
    by (simp add: map_Suc_upt upt_conv_Cons del: upt_Suc)
  then show ?thesis by (simp add: comp_def del: upt_Suc)
qed

lemma take_insert_at:
  "r \<le> length cs \<Longrightarrow> take (Suc r) (take r cs @ c # drop r cs) = take r cs @ [c]"
  "r \<le> length cs \<Longrightarrow> drop (Suc r) (take r cs @ c # drop r cs) = drop r cs"
  by (simp_all add: min_def)

lemma insert_clones_effect:
  "insert_clones b fuel m parent p (length nodes) (map int nodes @ rest) row = Inr m' \<Longrightarrow>
   deref (mem m) p = Some P \<Longrightarrow> index_in_tree b m parent \<Longrightarrow>
   p = TreeModel_nodeForIndex m parent \<Longrightarrow>
   rootNode m' = rootNode m
   \<and> (\<exists>S. siblingAtColumn b m parent 0 = Inr S
          \<and> trace m' = trace m @ concat (map (\<lambda>i. insert_block S p (row + int i)) [0..<length nodes]))
   \<and> length (mem m) \<le> length (mem m')
   \<and> (\<forall>x \<le> length (mem m). x \<noteq> p \<longrightarrow> deref (mem m') x = deref (mem m) x)
   \<and> (nodes \<noteq> [] \<longrightarrow> 0 \<le> row \<and> row \<le> int (length (m_childNodes P)))
   \<and> (\<exists>copies. length copies = length nodes
          \<and> (\<forall>c \<in> set copies. length (mem m) < c
                 \<and> (\<exists>C. deref (mem m') c = Some C \<and> m_parentNode C = p))
          \<and> deref (mem m') p = Some (P\<lparr>m_childNodes :=
                 take (nat row) (m_childNodes P) @ copies @ drop (nat row) (m_childNodes P)\<rparr>)
          \<and> (\<forall>i < length nodes. \<forall>n t.
                 subtree n (mem m) (nodes ! i) = Some t \<and> p \<notin> set (nodes_of n (mem m) (nodes ! i))
                 \<longrightarrow> subtree n (mem m') (copies ! i) = Some t
                   \<and> (\<forall>x \<in> set (nodes_of n (mem m') (copies ! i)). length (mem m) < x)))"
proof (induction nodes arbitrary: m row P)
  case Nil
  from siblingAtColumn_defined [OF Nil.prems(3)] Nil.prems(1,2) show ?case by auto
next
  case (Cons src nodes)
  let ?h = "mem m"
  from siblingAtColumn_defined [OF Cons.prems(3)] obtain S where S: "siblingAtColumn b m parent 0 = Inr S"
    by blast
  let ?m1 = "m\<lparr>trace := trace m @ [BeginInsertRows S row row]\<rparr>"
  from Cons.prems(1) S obtain h1 copy h2 where
    cl: "TreeNode_clone fuel ?h src = Inr (h1, copy)"
    and ins: "TreeNode_insertChild h1 p row copy = Inr h2"
    and rec: "insert_clones b fuel
                (?m1\<lparr>mem := h2, trace := trace ?m1 @ [ChildInserted p row, EndInsertRows]\<rparr>)
                parent p (length nodes) (map int nodes @ rest) (row + 1) = Inr m'"
    by (auto simp: read_int_def Let_def split: sum.splits prod.splits)
  let ?m2 = "?m1\<lparr>mem := h2, trace := trace ?m1 @ [ChildInserted p row, EndInsertRows]\<rparr>"
  from TreeNode_clone_frame [OF cl] have copy: "copy = Suc (length ?h)"
    and len1: "length ?h < length h1"
    and fr1: "\<And>x. x \<le> length ?h \<Longrightarrow> deref h1 x = deref ?h x" by auto
  from Cons.prems(2) have ple: "p \<le> length ?h" "p \<noteq> nullptr" by (auto dest: deref_Some_bounds)
  with copy have pc: "p \<noteq> copy" by simp
  from fr1 [OF ple(1)] Cons.prems(2) have P1: "deref h1 p = Some P" by simp
  from insertChild_success [OF ins pc] P1 obtain C where
    C: "deref h1 copy = Some C" and rowb: "0 \<le> row" "row \<le> int (length (m_childNodes P))"
    and d2: "\<And>x. deref h2 x = (if x = p then Some (P\<lparr>m_childNodes :=
                 take (nat row) (m_childNodes P) @ copy # drop (nat row) (m_childNodes P)\<rparr>)
             else if x = copy then Some (C\<lparr>m_parentNode := p\<rparr>) else deref h1 x)"
    and len2: "length h2 = length h1"
    by (metis option.inject)
  let ?P2 = "P\<lparr>m_childNodes := take (nat row) (m_childNodes P) @ copy # drop (nat row) (m_childNodes P)\<rparr>"
  have old2: "deref h2 x = deref ?h x" if "x \<le> length ?h" "x \<noteq> p" for x
    using that d2 [of x] fr1 [of x] copy by auto
  have q2: "deref (mem ?m2) p = Some ?P2" by (simp add: d2)
  have st: "siblingAtColumn b ?m2 parent 0 = siblingAtColumn b m parent 0 \<and> index_in_tree b ?m2 parent"
  proof (rule siblingAtColumn_stable [OF Cons.prems(3)])
    show "rootNode ?m2 = rootNode m" by simp
  next
    fix x assume a: "idx_model parent \<and> idx_column parent \<noteq> 0" "x \<le> length ?h" "x \<noteq> idx_ptr parent"
    from a(1) Cons.prems(3) have "isValid parent" by (auto simp: index_in_tree_def)
    with Cons.prems(4) have "p = idx_ptr parent" by (simp add: TreeModel_nodeForIndex_def)
    with a old2 [of x] show "deref (mem ?m2) x = deref ?h x" by simp
  next
    fix N assume a: "idx_model parent \<and> idx_column parent \<noteq> 0" "deref ?h (idx_ptr parent) = Some N"
    from a(1) Cons.prems(3) have "isValid parent" by (auto simp: index_in_tree_def)
    with Cons.prems(4) have "p = idx_ptr parent" by (simp add: TreeModel_nodeForIndex_def)
    with a(2) Cons.prems(2) d2 [of p]
    show "\<exists>N'. deref (mem ?m2) (idx_ptr parent) = Some N' \<and> m_parentNode N' = m_parentNode N"
      by auto
  qed
  have nf: "p = TreeModel_nodeForIndex ?m2 parent"
    using Cons.prems(4) by (simp add: TreeModel_nodeForIndex_def)
  from Cons.IH [OF rec q2 st [THEN conjunct2] nf] st S
  obtain copies where
        r1: "rootNode m' = rootNode m"
    and r2: "trace m' = trace ?m2 @ concat (map (\<lambda>i. insert_block S p (row + 1 + int i)) [0..<length nodes])"
    and r3: "length h2 \<le> length (mem m')"
    and r4: "\<And>x. x \<le> length h2 \<Longrightarrow> x \<noteq> p \<Longrightarrow> deref (mem m') x = deref h2 x"
    and r5: "length copies = length nodes"
    and r6: "\<And>c. c \<in> set copies \<Longrightarrow> length h2 < c \<and> (\<exists>C. deref (mem m') c = Some C \<and> m_parentNode C = p)"
    and r7: "deref (mem m') p = Some (?P2\<lparr>m_childNodes :=
                 take (nat (row + 1)) (m_childNodes ?P2) @ copies @ drop (nat (row + 1)) (m_childNodes ?P2)\<rparr>)"
    and r8: "\<And>i n t. i < length nodes \<Longrightarrow> subtree n h2 (nodes ! i) = Some t \<Longrightarrow>
                 p \<notin> set (nodes_of n h2 (nodes ! i)) \<Longrightarrow>
                 subtree n (mem m') (copies ! i) = Some t
                 \<and> (\<forall>x \<in> set (nodes_of n (mem m') (copies ! i)). length h2 < x)"
    by auto
  have t: "trace m' = trace m @ concat (map (\<lambda>i. insert_block S p (row + int i)) [0..<length (src # nodes)])"
  proof -
    have e: "row + 1 + int i = row + int (Suc i)" for i by simp
    from r2 have "trace m' = trace ?m2
        @ concat (map (\<lambda>i. insert_block S p (row + int (Suc i))) [0..<length nodes])"
      by (simp only: e)
    moreover have "trace ?m2 = trace m @ insert_block S p (row + int 0)"
      by (simp add: insert_block_def)
    moreover note upt_blocks [of "\<lambda>i. insert_block S p (row + int i)" "length nodes"]
    ultimately show ?thesis by (simp only: length_Cons append_assoc)
  qed
  have fr: "deref (mem m') x = deref ?h x" if "x \<le> length ?h" "x \<noteq> p" for x
    using r4 [of x] old2 [of x] that len1 len2 by simp
  from rowb have nr: "nat (row + 1) = Suc (nat row)" "nat row \<le> length (m_childNodes P)" by auto
  have kids: "deref (mem m') p = Some (P\<lparr>m_childNodes :=
                 take (nat row) (m_childNodes P) @ (copy # copies) @ drop (nat row) (m_childNodes P)\<rparr>)"
    using r7 by (simp add: nr take_insert_at [OF nr(2)])
  have cp: "length ?h < c \<and> (\<exists>C. deref (mem m') c = Some C \<and> m_parentNode C = p)"
    if "c \<in> set (copy # copies)" for c
  proof (cases "c = copy")
    case True
    have "copy \<le> length h2" using copy len1 len2 by simp
    from r4 [OF this] pc d2 [of copy] have "deref (mem m') copy = Some (C\<lparr>m_parentNode := p\<rparr>)"
      by simp
    with True copy show ?thesis by simp
  next
    case False
    with that r6 [of c] len1 len2 show ?thesis by auto
  qed
  have trees: "subtree n (mem m') ((copy # copies) ! i) = Some t
               \<and> (\<forall>x \<in> set (nodes_of n (mem m') ((copy # copies) ! i)). length ?h < x)"
    if i: "i < length (src # nodes)" and s: "subtree n ?h ((src # nodes) ! i) = Some t"
      and np: "p \<notin> set (nodes_of n ?h ((src # nodes) ! i))" for i n t
  proof (cases i)
    case 0
    with s have "subtree n ?h src = Some t" by simp
    from clone_result_any_fuel [OF cl this] copy
    have s1: "subtree n h1 copy = Some t" and n1: "\<And>x. x \<in> set (nodes_of n h1 copy) \<Longrightarrow> length ?h < x"
      by (auto simp: clone_post_def)
    have l2: "subtree n h2 copy = subtree n h1 copy \<and> nodes_of n h2 copy = nodes_of n h1 copy"
    proof (rule subtree_local)
      fix x assume "x \<in> set (nodes_of n h1 copy)"
      from n1 [OF this] ple have "x \<noteq> p" by auto
      with d2 [of x] C show "alike (deref h1 x) (deref h2 x)"
        by (cases "x = copy") (auto simp: alike_def)
    qed
    have "subtree n (mem m') copy = subtree n h2 copy \<and> nodes_of n (mem m') copy = nodes_of n h2 copy"
    proof (rule subtree_local)
      fix x assume x: "x \<in> set (nodes_of n h2 copy)"
      with l2 n1 [of x] ple have "x \<noteq> p" by auto
      moreover from subtree_nodes_live [of n h2 copy t x] l2 s1 x have "deref h2 x \<noteq> None"
        by simp
      then have "x \<le> length h2" by (rule deref_le_length)
      ultimately show "alike (deref h2 x) (deref (mem m') x)" using r4 [of x] by simp
    qed
    with l2 s1 0 n1 show ?thesis by simp
  next
    case (Suc j)
    with i s np have j: "j < length nodes" "subtree n ?h (nodes ! j) = Some t"
      "p \<notin> set (nodes_of n ?h (nodes ! j))" by auto
    have "subtree n h2 (nodes ! j) = subtree n ?h (nodes ! j)
        \<and> nodes_of n h2 (nodes ! j) = nodes_of n ?h (nodes ! j)"
    proof (rule subtree_local)
      fix x assume x: "x \<in> set (nodes_of n ?h (nodes ! j))"
      with j(3) have "x \<noteq> p" by auto
      moreover from subtree_nodes_live [OF j(2) x] have "x \<le> length ?h" by (rule deref_le_length)
      ultimately show "alike (deref ?h x) (deref h2 x)" using old2 [of x] by simp
    qed
    with j r8 [of j n t] Suc len1 len2 show ?thesis by fastforce
  qed
  show ?case
    apply (intro conjI)
         apply (rule r1)
        apply (rule exI [of _ S], rule conjI, rule S, rule t)
       using len1 len2 r3 apply simp
      using fr apply blast
     using rowb apply blast
    apply (rule exI [of _ "copy # copies"])
    using r5 cp kids trees apply (intro conjI)
       apply simp
      apply blast
     apply blast
    apply blast
    done
qed

lemma insert_clones_mono:
  "insert_clones b fuel m parent p k stream row = Inr m' \<Longrightarrow> fuel \<le> fuel' \<Longrightarrow>
   insert_clones b fuel' m parent p k stream row = Inr m'"
proof (induction k arbitrary: m stream row)
  case 0
  then show ?case by simp
next
  case (Suc k)
  obtain nodePtr stream' where rd: "read_int stream = (nodePtr, stream')" by (cases "read_int stream")
  from Suc.prems(1) rd obtain S h1 copy h2 where
    S: "siblingAtColumn b m parent 0 = Inr S"
    and cl: "TreeNode_clone fuel (mem m) (nat nodePtr) = Inr (h1, copy)"
    and ins: "TreeNode_insertChild h1 p row copy = Inr h2"
    and rec: "insert_clones b fuel
                (m\<lparr>trace := trace m @ [BeginInsertRows S row row], mem := h2,
                   trace := trace (m\<lparr>trace := trace m @ [BeginInsertRows S row row]\<rparr>)
                            @ [ChildInserted p row, EndInsertRows]\<rparr>)
                parent p k stream' (row + 1) = Inr m'"
    by (auto simp: Let_def split: sum.splits prod.splits)
  from TreeNode_clone_mono [OF cl Suc.prems(2)] Suc.IH [OF rec Suc.prems(2)] rd S ins
  show ?case by (simp add: Let_def)
qed

lemma those_map_all_Some:
  "(\<And>x. x \<in> set xs \<Longrightarrow> \<exists>y. f x = Some y) \<Longrightarrow> \<exists>ys. those (map f xs) = Some ys"
proof (induction xs)
  case Nil
  then show ?case by simp
next
  case (Cons x xs)
  from Cons.prems [of x] obtain y where "f x = Some y" by auto
  moreover from Cons.IH Cons.prems obtain ys where "those (map f xs) = Some ys" by auto
  ultimately show ?case by simp
qed

lemma subtree_after_insert:
  assumes d2: "\<And>x. deref h2 x = (if x = p then Some (P\<lparr>m_childNodes :=
                 take r (m_childNodes P) @ copy # drop r (m_childNodes P)\<rparr>)
             else if x = copy then Some (C\<lparr>m_parentNode := p\<rparr>) else deref h1 x)"
    and P: "deref h1 p = Some P" and C: "deref h1 copy = Some C" and pc: "p \<noteq> copy"
    and cp: "subtree k h2 copy = Some tc"
  shows "subtree n h1 a = Some t \<Longrightarrow> \<exists>t'. subtree (n + k) h2 a = Some t'"
proof (induction n arbitrary: a t)
  case 0
  then show ?case by simp
next
  case (Suc n)
  from Suc.prems obtain N ts where N: "deref h1 a = Some N"
    "those (map (subtree n h1) (m_childNodes N)) = Some ts"
    by (auto split: option.splits)
  have old: "\<exists>t'. subtree (n + k) h2 c = Some t'" if "c \<in> set (m_childNodes N)" for c
  proof -
    from that obtain i where "i < length (m_childNodes N)" "m_childNodes N ! i = c"
      by (auto simp: in_set_conv_nth)
    with N(2) have "subtree n h1 c = Some (ts ! i)" by (auto simp: those_map_Some_iff)
    from Suc.IH [OF this] show ?thesis .
  qed
  from subtree_mono [OF cp, of "n + k"] have new: "\<exists>t'. subtree (n + k) h2 copy = Some t'" by simp
  obtain N2 where N2: "deref h2 a = Some N2"
    "set (m_childNodes N2) \<subseteq> insert copy (set (m_childNodes N))"
  proof (cases "a = p")
    case True
    with N P have NP: "N = P" by simp
    let ?P2 = "P\<lparr>m_childNodes := take r (m_childNodes P) @ copy # drop r (m_childNodes P)\<rparr>"
    from True d2 [of a] have 1: "deref h2 a = Some ?P2" by simp
    have "set (m_childNodes ?P2) = insert copy (set (m_childNodes P))"
      using set_insert_at [of r "m_childNodes P" copy] by simp
    with NP have "set (m_childNodes ?P2) \<subseteq> insert copy (set (m_childNodes N))" by simp
    with 1 that show ?thesis by blast
  next
    case False
    with d2 [of a] N C that show ?thesis by (cases "a = copy") auto
  qed
  have "\<exists>y. subtree (n + k) h2 x = Some y" if "x \<in> set (m_childNodes N2)" for x
    using that N2(2) old new by auto
  from those_map_all_Some [of "m_childNodes N2" "subtree (n + k) h2", OF this]
  obtain ys where "those (map (subtree (n + k) h2) (m_childNodes N2)) = Some ys" by blast
  with N2(1) show ?case by simp
qed

lemma insert_clones_succeeds:
  "deref (mem m) p = Some P \<Longrightarrow> 0 \<le> row \<Longrightarrow> row \<le> int (length (m_childNodes P)) \<Longrightarrow>
   index_in_tree b m parent \<Longrightarrow> p = TreeModel_nodeForIndex m parent \<Longrightarrow>
   (\<And>src. src \<in> set nodes \<Longrightarrow> \<exists>n t. subtree n (mem m) src = Some t) \<Longrightarrow>
   \<exists>fuel m'. insert_clones b fuel m parent p (length nodes) (map int nodes @ rest) row = Inr m'"
proof (induction nodes arbitrary: m row P)
  case Nil
  then show ?case by simp
next
  case (Cons src nodes)
  let ?h = "mem m"
  from siblingAtColumn_defined [OF Cons.prems(4)] obtain S where S: "siblingAtColumn b m parent 0 = Inr S"
    by blast
  let ?m1 = "m\<lparr>trace := trace m @ [BeginInsertRows S row row]\<rparr>"
  from Cons.prems(6) [of src] obtain n0 t0 where t0: "subtree n0 ?h src = Some t0" by auto
  from TreeNode_clone_correct [OF t0] obtain h1 where
    cl: "TreeNode_clone n0 ?h src = Inr (h1, Suc (length ?h))" and post: "clone_post n0 ?h t0 nullptr h1"
    by blast
  let ?copy = "Suc (length ?h)"
  from post obtain C where len1: "length ?h < length h1"
    and fr1: "\<And>x. x \<le> length ?h \<Longrightarrow> deref h1 x = deref ?h x"
    and s1: "subtree n0 h1 ?copy = Some t0"
    and n1: "\<And>x. x \<in> set (nodes_of n0 h1 ?copy) \<Longrightarrow> length ?h < x"
    and C: "deref h1 ?copy = Some C"
    by (auto simp: clone_post_def)
  from Cons.prems(1) have ple: "p \<le> length ?h" "p \<noteq> nullptr" by (auto dest: deref_Some_bounds)
  then have pc: "p \<noteq> ?copy" by simp
  from fr1 [OF ple(1)] Cons.prems(1) have P1: "deref h1 p = Some P" by simp
  from insertChild_total [OF C P1 pc Cons.prems(2,3)] obtain h2 where
    ins: "TreeNode_insertChild h1 p row ?copy = Inr h2" by blast
  from insertChild_success [OF ins pc] P1 C have
    d2: "\<And>x. deref h2 x = (if x = p then Some (P\<lparr>m_childNodes :=
                 take (nat row) (m_childNodes P) @ ?copy # drop (nat row) (m_childNodes P)\<rparr>)
             else if x = ?copy then Some (C\<lparr>m_parentNode := p\<rparr>) else deref h1 x)"
    by (metis option.inject)
  let ?P2 = "P\<lparr>m_childNodes := take (nat row) (m_childNodes P) @ ?copy # drop (nat row) (m_childNodes P)\<rparr>"
  let ?m2 = "?m1\<lparr>mem := h2, trace := trace ?m1 @ [ChildInserted p row, EndInsertRows]\<rparr>"
  have old2: "deref h2 x = deref ?h x" if "x \<le> length ?h" "x \<noteq> p" for x
    using that d2 [of x] fr1 [of x] by auto
  have q2: "deref (mem ?m2) p = Some ?P2" by (simp add: d2)
  have st: "siblingAtColumn b ?m2 parent 0 = siblingAtColumn b m parent 0 \<and> index_in_tree b ?m2 parent"
  proof (rule siblingAtColumn_stable [OF Cons.prems(4)])
    show "rootNode ?m2 = rootNode m" by simp
  next
    fix x assume a: "idx_model parent \<and> idx_column parent \<noteq> 0" "x \<le> length ?h" "x \<noteq> idx_ptr parent"
    from a(1) Cons.prems(4) have "isValid parent" by (auto simp: index_in_tree_def)
    with Cons.prems(5) have "p = idx_ptr parent" by (simp add: TreeModel_nodeForIndex_def)
    with a old2 [of x] show "deref (mem ?m2) x = deref ?h x" by simp
  next
    fix N assume a: "idx_model parent \<and> idx_column parent \<noteq> 0" "deref ?h (idx_ptr parent) = Some N"
    from a(1) Cons.prems(4) have "isValid parent" by (auto simp: index_in_tree_def)
    with Cons.prems(5) have "p = idx_ptr parent" by (simp add: TreeModel_nodeForIndex_def)
    with a(2) Cons.prems(1) d2 [of p]
    show "\<exists>N'. deref (mem ?m2) (idx_ptr parent) = Some N' \<and> m_parentNode N' = m_parentNode N"
      by auto
  qed
  have nf: "p = TreeModel_nodeForIndex ?m2 parent"
    using Cons.prems(5) by (simp add: TreeModel_nodeForIndex_def)
  have rb: "0 \<le> row + 1" "row + 1 \<le> int (length (m_childNodes ?P2))"
    using Cons.prems(2,3) by auto
  have l2: "subtree n0 h2 ?copy = subtree n0 h1 ?copy \<and> nodes_of n0 h2 ?copy = nodes_of n0 h1 ?copy"
  proof (rule subtree_local)
    fix x assume "x \<in> set (nodes_of n0 h1 ?copy)"
    from n1 [OF this] ple have "x \<noteq> p" by auto
    with d2 [of x] C show "alike (deref h1 x) (deref h2 x)"
      by (cases "x = ?copy") (auto simp: alike_def)
  qed
  with s1 have cp2: "subtree n0 h2 ?copy = Some t0" by simp
  have wf2: "\<exists>n t. subtree n (mem ?m2) s = Some t" if "s \<in> set nodes" for s
  proof -
    from Cons.prems(6) [of s] that obtain n t where "subtree n ?h s = Some t" by auto
    from subtree_frame(1) [OF this, of h1] fr1 have "subtree n h1 s = Some t" by simp
    from subtree_after_insert [OF d2 P1 C pc cp2 this]
    show ?thesis by auto
  qed
  from Cons.IH [OF q2 rb st [THEN conjunct2] nf wf2]
  obtain fuel m' where
    rec: "insert_clones b fuel ?m2 parent p (length nodes) (map int nodes @ rest) (row + 1) = Inr m'"
    by blast
  let ?f = "max n0 fuel"
  from TreeNode_clone_mono [OF cl, of ?f] have cl': "TreeNode_clone ?f ?h src = Inr (h1, ?copy)" by simp
  from insert_clones_mono [OF rec, of ?f]
  have rec': "insert_clones b ?f ?m2 parent p (length nodes) (map int nodes @ rest) (row + 1) = Inr m'"
    by simp
  have "insert_clones b ?f m parent p (length (src # nodes)) (map int (src # nodes) @ rest) row = Inr m'"
    using S cl' ins rec' by (simp add: read_int_def Let_def)
  then show ?case by blast
qed

lemma dropMimeData_accepted:
  assumes "hasFormat mimeData s_mimeType"
    and "mime_data mimeData s_mimeType = applicationPid # int (length nodes) # map int nodes @ rest"
    and "deref (mem m) (TreeModel_nodeForIndex m parent) = Some P"
  shows "TreeModel_dropMimeData b fuel applicationPid m mimeData action row column parent =
     (case insert_clones b fuel m parent (TreeModel_nodeForIndex m parent) (length nodes)
             (map int nodes @ rest) (insertion_point parent row P) of
        Inl e \<Rightarrow> Inl e
      | Inr m' \<Rightarrow> Inr (True, m'))"
proof -
  from assms(3) have nz: "TreeModel_nodeForIndex m parent \<noteq> nullptr"
    by (auto dest: deref_Some_bounds)
  have rc: "TreeModel_rowCount m QModelIndex_invalid = Inr (int (length (m_childNodes P)))"
    if "\<not> isValid parent"
  proof -
    from that assms(3) have "deref (mem m) (rootNode m) = Some P"
      by (simp add: TreeModel_nodeForIndex_def)
    then show ?thesis
      by (simp add: TreeModel_rowCount_def QModelIndex_invalid_def isValid_def
            TreeNode_childCount_def)
  qed
  show ?thesis
    using assms(1,2) nz rc
    by (simp add: TreeModel_dropMimeData_def read_int_def Q_ASSERT_def Let_def insertion_point_def)
qed

section \<open>Accepted drops\<close>

lemma nodeForIndex_C: "TreeModel_nodeForIndex tree_ABC (createIndex 2 1 4) = 4"
  by code_simp

text \<open>
  C2, as amended. A payload that carries the process's own id and the addresses of
  \<open>k\<close> nodes, each the top of a tree of live nodes, dropped with a parent index of
  the tree whose node is live, at row \<open>-1\<close> or at a row between \<open>0\<close> and the
  parent's child count, is accepted with enough fuel for the recursion of the clones:
  the call returns \<open>true\<close>, the parent's children are the old ones with \<open>k\<close> fresh
  nodes inserted at consecutive positions from the insertion point on, its child
  count has grown by \<open>k\<close>, and every inserted node has the parent as its
  \<open>parentNode\<close>. Whenever the subtree of the \<open>i\<close>-th encoded node does not contain the
  drop target, the \<open>i\<close>-th inserted node is a clone of it: the tree below the inserted
  node is the tree that was below the encoded node, and it consists of fresh nodes
  only.
\<close>

theorem drop_inserts_clones:
  assumes fmt: "hasFormat mimeData s_mimeType"
    and payload: "mime_data mimeData s_mimeType = applicationPid # int (length nodes) # map int nodes"
    and live: "deref (mem m) (TreeModel_nodeForIndex m parent) = Some P"
    and idx: "index_in_tree b m parent"
    and row: "row = - 1 \<or> 0 \<le> row \<and> row \<le> int (length (m_childNodes P))"
    and trees: "\<forall>src \<in> set nodes. \<exists>n t. subtree n (mem m) src = Some t"
  shows "\<exists>fuel0 m' copies.
           (\<forall>fuel \<ge> fuel0. TreeModel_dropMimeData b fuel applicationPid m mimeData action row column parent
                            = Inr (True, m'))
         \<and> length copies = length nodes
         \<and> deref (mem m') (TreeModel_nodeForIndex m parent)
             = Some (P\<lparr>m_childNodes :=
                  take (nat (insertion_point parent row P)) (m_childNodes P) @ copies
                  @ drop (nat (insertion_point parent row P)) (m_childNodes P)\<rparr>)
         \<and> TreeNode_childCount (mem m') (TreeModel_nodeForIndex m parent)
             = Inr (int (length (m_childNodes P)) + int (length nodes))
         \<and> (\<forall>c \<in> set copies. deref (mem m) c = None
                \<and> TreeNode_parentNode (mem m') c = Inr (TreeModel_nodeForIndex m parent))
         \<and> (\<forall>i < length nodes. \<forall>n t.
                subtree n (mem m) (nodes ! i) = Some t
                \<and> TreeModel_nodeForIndex m parent \<notin> set (nodes_of n (mem m) (nodes ! i))
                \<longrightarrow> subtree n (mem m') (copies ! i) = Some t
                  \<and> (\<forall>x \<in> set (nodes_of n (mem m') (copies ! i)). deref (mem m) x = None))"
proof -
  let ?p = "TreeModel_nodeForIndex m parent"
  let ?r = "insertion_point parent row P"
  from row have rb: "0 \<le> ?r" "?r \<le> int (length (m_childNodes P))"
    by (auto simp: insertion_point_def)
  from trees have tr: "\<exists>n t. subtree n (mem m) src = Some t" if "src \<in> set nodes" for src
    using that by blast
  from insert_clones_succeeds [OF live rb idx refl tr, of nodes "[]"]
  obtain fuel0 m' where
    run: "insert_clones b fuel0 m parent ?p (length nodes) (map int nodes @ []) ?r = Inr m'"
    by blast
  from payload have payload': "mime_data mimeData s_mimeType
      = applicationPid # int (length nodes) # map int nodes @ []" by simp
  have acc: "TreeModel_dropMimeData b fuel applicationPid m mimeData action row column parent
               = Inr (True, m')" if "fuel0 \<le> fuel" for fuel
    using insert_clones_mono [OF run that]
    by (simp add: dropMimeData_accepted [OF fmt payload' live])
  from insert_clones_effect [OF run live idx refl]
  obtain copies where
        c1: "length copies = length nodes"
    and c2: "\<And>c. c \<in> set copies \<Longrightarrow> length (mem m) < c
                 \<and> (\<exists>C. deref (mem m') c = Some C \<and> m_parentNode C = ?p)"
    and c3: "deref (mem m') ?p = Some (P\<lparr>m_childNodes :=
                 take (nat ?r) (m_childNodes P) @ copies @ drop (nat ?r) (m_childNodes P)\<rparr>)"
    and c4: "\<And>i n t. i < length nodes \<Longrightarrow> subtree n (mem m) (nodes ! i) = Some t \<Longrightarrow>
               ?p \<notin> set (nodes_of n (mem m) (nodes ! i)) \<Longrightarrow>
               subtree n (mem m') (copies ! i) = Some t
               \<and> (\<forall>x \<in> set (nodes_of n (mem m') (copies ! i)). length (mem m) < x)"
    by auto
  have c5: "subtree n (mem m') (copies ! i) = Some t
            \<and> (\<forall>x \<in> set (nodes_of n (mem m') (copies ! i)). deref (mem m) x = None)"
    if "i < length nodes" "subtree n (mem m) (nodes ! i) = Some t"
       "?p \<notin> set (nodes_of n (mem m) (nodes ! i))" for i n t
    using c4 [OF that] by (auto simp: deref_def)
  from rb have "nat ?r \<le> length (m_childNodes P)" by simp
  then have "length (take (nat ?r) (m_childNodes P) @ copies @ drop (nat ?r) (m_childNodes P))
                  = length (m_childNodes P) + length nodes"
    by (simp add: c1 min_def)
  with c3 have cc: "TreeNode_childCount (mem m') ?p
             = Inr (int (length (m_childNodes P)) + int (length nodes))"
    by (simp add: TreeNode_childCount_def)
  have fresh: "deref (mem m) c = None \<and> TreeNode_parentNode (mem m') c = Inr ?p"
    if "c \<in> set copies" for c
    using c2 [OF that] by (auto simp: deref_def TreeNode_parentNode_def)
  show ?thesis
    apply (rule exI [of _ fuel0], rule exI [of _ m'], rule exI [of _ copies])
    using acc c1 c3 cc fresh c5 by blast
qed

theorem drop_inserts_clones_witness:
  "hasFormat (TreeModel_mimeData 4242 selected_rows) s_mimeType
   \<and> mime_data (TreeModel_mimeData 4242 selected_rows) s_mimeType = [4242, 2, 3, 2]
   \<and> index_in_tree Debug tree_ABC (createIndex 2 1 4)
   \<and> subtree 1 (mem tree_ABC) 3 = Some (Tree [QVariant_String ''B''] [])
   \<and> subtree 1 (mem tree_ABC) 2 = Some (Tree [QVariant_String ''A''] [])
   \<and> (\<exists>fuel0 m' copies.
         (\<forall>fuel \<ge> fuel0. TreeModel_dropMimeData Debug fuel 4242 tree_ABC
               (TreeModel_mimeData 4242 selected_rows) MoveAction (- 1) (- 1) (createIndex 2 1 4)
             = Inr (True, m'))
       \<and> length copies = 2
       \<and> TreeNode_childCount (mem m') 4 = Inr 2
       \<and> map (TreeNode_parentNode (mem m')) copies = [Inr 4, Inr 4]
       \<and> map (subtree 1 (mem m')) copies
           = [Some (Tree [QVariant_String ''B''] []), Some (Tree [QVariant_String ''A''] [])]
       \<and> map (deref (mem tree_ABC)) (concat (map (nodes_of 1 (mem m')) copies)) = [None, None])"
proof -
  let ?P = "\<lparr>m_childNodes = [], m_itemData = [QVariant_String ''C''], m_parentNode = 1\<rparr>"
  let ?d = "TreeModel_mimeData 4242 selected_rows"
  have fmt: "hasFormat ?d s_mimeType" by code_simp
  have payload: "mime_data ?d s_mimeType = 4242 # int (length [3, 2 :: nat]) # map int [3, 2]"
    by code_simp
  have live: "deref (mem tree_ABC) (TreeModel_nodeForIndex tree_ABC (createIndex 2 1 4)) = Some ?P"
    by code_simp
  have idx: "index_in_tree Debug tree_ABC (createIndex 2 1 4)" by code_simp
  have row: "(- 1 :: int) = - 1 \<or> 0 \<le> (- 1 :: int) \<and> - 1 \<le> int (length (m_childNodes ?P))"
    by simp
  have sB: "subtree 1 (mem tree_ABC) 3 = Some (Tree [QVariant_String ''B''] [])" by code_simp
  have sA: "subtree 1 (mem tree_ABC) 2 = Some (Tree [QVariant_String ''A''] [])" by code_simp
  have nB: "nodes_of 1 (mem tree_ABC) 3 = [3]" by code_simp
  have nA: "nodes_of 1 (mem tree_ABC) 2 = [2]" by code_simp
  have "\<exists>n t. subtree n (mem tree_ABC) src = Some t" if "src \<in> set [3, 2]" for src
  proof -
    from that have "src = 3 \<or> src = 2" by simp
    then show ?thesis using sB sA by blast
  qed
  then have trees: "\<forall>src \<in> set [3, 2]. \<exists>n t. subtree n (mem tree_ABC) src = Some t"
    by blast
  from drop_inserts_clones [OF fmt payload live idx row trees, of MoveAction "- 1"]
  obtain fuel0 m' copies where
        r1: "\<forall>fuel \<ge> fuel0. TreeModel_dropMimeData Debug fuel 4242 tree_ABC ?d MoveAction (- 1) (- 1)
                (createIndex 2 1 4) = Inr (True, m')"
    and r2: "length copies = length [3, 2 :: nat]"
    and r3: "TreeNode_childCount (mem m') (TreeModel_nodeForIndex tree_ABC (createIndex 2 1 4))
               = Inr (int (length (m_childNodes ?P)) + int (length [3, 2 :: nat]))"
    and r4: "\<forall>c \<in> set copies. deref (mem tree_ABC) c = None
                \<and> TreeNode_parentNode (mem m') c
                    = Inr (TreeModel_nodeForIndex tree_ABC (createIndex 2 1 4))"
    and r5: "\<forall>i < length [3, 2 :: nat]. \<forall>n t.
                subtree n (mem tree_ABC) ([3, 2] ! i) = Some t
                \<and> TreeModel_nodeForIndex tree_ABC (createIndex 2 1 4)
                    \<notin> set (nodes_of n (mem tree_ABC) ([3, 2] ! i))
                \<longrightarrow> subtree n (mem m') (copies ! i) = Some t
                  \<and> (\<forall>x \<in> set (nodes_of n (mem m') (copies ! i)). deref (mem tree_ABC) x = None)"
    by blast
  from r2 obtain c0 c1 where copies: "copies = [c0, c1]"
    by (cases copies; cases "tl copies"; auto)
  from r3 have cc: "TreeNode_childCount (mem m') 4 = Inr 2" by (simp add: nodeForIndex_C)
  from r4 have par: "map (TreeNode_parentNode (mem m')) copies = [Inr 4, Inr 4]"
    by (simp add: copies nodeForIndex_C)
  have one: "nodes_of (Suc 0) h a = [a]" for h a
    by (simp split: option.splits)
  from r5 [rule_format, of 0 1] sB nB have t0: "subtree 1 (mem m') c0 = Some (Tree [QVariant_String ''B''] [])"
    and f0: "deref (mem tree_ABC) c0 = None"
    by (simp_all add: copies nodeForIndex_C del: subtree.simps nodes_of.simps)
       (simp add: one)
  from r5 [rule_format, of 1 1] sA nA have t1: "subtree 1 (mem m') c1 = Some (Tree [QVariant_String ''A''] [])"
    and f1: "deref (mem tree_ABC) c1 = None"
    by (simp_all add: copies nodeForIndex_C del: subtree.simps nodes_of.simps)
       (simp add: one)
  have "\<exists>fuel0 m' copies.
         (\<forall>fuel \<ge> fuel0. TreeModel_dropMimeData Debug fuel 4242 tree_ABC ?d MoveAction (- 1) (- 1)
               (createIndex 2 1 4) = Inr (True, m'))
       \<and> length copies = 2
       \<and> TreeNode_childCount (mem m') 4 = Inr 2
       \<and> map (TreeNode_parentNode (mem m')) copies = [Inr 4, Inr 4]
       \<and> map (subtree 1 (mem m')) copies
           = [Some (Tree [QVariant_String ''B''] []), Some (Tree [QVariant_String ''A''] [])]
       \<and> map (deref (mem tree_ABC)) (concat (map (nodes_of 1 (mem m')) copies)) = [None, None]"
    apply (rule exI [of _ fuel0], rule exI [of _ m'], rule exI [of _ copies])
    using r1 cc par t0 t1 f0 f1 by (simp add: copies one del: subtree.simps nodes_of.simps)
  moreover have "mime_data ?d s_mimeType = [4242, 2, 3, 2]" by code_simp
  ultimately show ?thesis using fmt idx sB sA by blast
qed

text \<open>
  C2, as stated, fails in two ways. Only the sender's process id is checked: after
  \<open>removeRows\<close> has deleted "B", a payload of the same process that still encodes
  the address of "B" passes both checks, and the handler goes on to clone through the
  dangling pointer instead of rejecting the stale data. And the clones are taken one
  after the other: when "A" and "B" are dropped onto "B", the copy of "A" is already
  a child of "B" when "B" is cloned, so the node inserted for "B" has a child, which
  the subtree of "B" did not have when the payload was accepted (nor is it the
  subtree of "B" afterwards, which has two children).
\<close>

theorem drop_of_stale_or_enclosing_source:
  "TreeModel_removeRows Debug 3 tree_ABC 1 1 QModelIndex_invalid = Inr (True, tree_without_B)
   \<and> deref (mem tree_without_B) 3 = None
   \<and> hasFormat (TreeModel_mimeData 4242 [createIndex 1 0 3]) s_mimeType
   \<and> fst (read_int (mime_data (TreeModel_mimeData 4242 [createIndex 1 0 3]) s_mimeType)) = 4242
   \<and> TreeModel_dropMimeData Debug 3 4242 tree_without_B (TreeModel_mimeData 4242 [createIndex 1 0 3])
        MoveAction (- 1) (- 1) QModelIndex_invalid = Inl UndefinedBehaviour
   \<and> mime_data (TreeModel_mimeData 4242 [createIndex 0 0 2, createIndex 1 0 3]) s_mimeType
        = [4242, 2, 2, 3]
   \<and> subtree 3 (mem tree_ABC) 3 = Some (Tree [QVariant_String ''B''] [])
   \<and> TreeModel_dropMimeData Debug 3 4242 tree_ABC
        (TreeModel_mimeData 4242 [createIndex 0 0 2, createIndex 1 0 3])
        CopyAction (- 1) (- 1) (createIndex 1 0 3) = Inr (True, tree_AB_under_B)
   \<and> TreeNode_child (mem tree_AB_under_B) 3 1 = Inr 6
   \<and> subtree 3 (mem tree_AB_under_B) 6
        = Some (Tree [QVariant_String ''B''] [Tree [QVariant_String ''A''] []])
   \<and> subtree 3 (mem tree_AB_under_B) 3
        = Some (Tree [QVariant_String ''B'']
                  [Tree [QVariant_String ''A''] [],
                   Tree [QVariant_String ''B''] [Tree [QVariant_String ''A''] []]])"
  by code_simp

text \<open>
  C7, as amended. An accepted drop leaves the root pointer alone and writes no live
  cell other than the target parent node; the target parent keeps its column values
  and parent and only gains fresh nodes among its children; so every subtree that does
  not contain the target parent, a dragged node's in particular, consists of the same
  nodes with the same contents afterwards. Nothing is removed or detached.
\<close>

theorem drop_changes_only_the_target_parent:
  assumes run: "TreeModel_dropMimeData b fuel applicationPid m mimeData action row column parent
                  = Inr (ok, m')"
    and fmt: "hasFormat mimeData s_mimeType"
    and payload: "mime_data mimeData s_mimeType
                    = applicationPid # int (length nodes) # map int nodes @ rest"
    and live: "deref (mem m) (TreeModel_nodeForIndex m parent) = Some P"
    and idx: "index_in_tree b m parent"
  shows "ok \<and> rootNode m' = rootNode m
       \<and> (\<forall>x. deref (mem m) x \<noteq> None \<and> x \<noteq> TreeModel_nodeForIndex m parent
              \<longrightarrow> deref (mem m') x = deref (mem m) x)
       \<and> (\<exists>copies. length copies = length nodes
              \<and> (\<forall>c \<in> set copies. deref (mem m) c = None)
              \<and> deref (mem m') (TreeModel_nodeForIndex m parent)
                  = Some (P\<lparr>m_childNodes :=
                       take (nat (insertion_point parent row P)) (m_childNodes P) @ copies
                       @ drop (nat (insertion_point parent row P)) (m_childNodes P)\<rparr>))
       \<and> (\<forall>a n t. subtree n (mem m) a = Some t
                \<and> TreeModel_nodeForIndex m parent \<notin> set (nodes_of n (mem m) a)
              \<longrightarrow> subtree n (mem m') a = Some t
                \<and> nodes_of n (mem m') a = nodes_of n (mem m) a)"
proof -
  let ?p = "TreeModel_nodeForIndex m parent"
  let ?r = "insertion_point parent row P"
  from run have ok: "ok"
    and ic: "insert_clones b fuel m parent ?p (length nodes) (map int nodes @ rest) ?r = Inr m'"
    by (auto simp: dropMimeData_accepted [OF fmt payload live] split: sum.splits)
  from insert_clones_effect [OF ic live idx refl]
  obtain copies where
        root: "rootNode m' = rootNode m"
    and frame: "\<And>x. x \<le> length (mem m) \<Longrightarrow> x \<noteq> ?p \<Longrightarrow> deref (mem m') x = deref (mem m) x"
    and c1: "length copies = length nodes"
    and c2: "\<And>c. c \<in> set copies \<Longrightarrow> length (mem m) < c"
    and c3: "deref (mem m') ?p = Some (P\<lparr>m_childNodes :=
                 take (nat ?r) (m_childNodes P) @ copies @ drop (nat ?r) (m_childNodes P)\<rparr>)"
    by auto
  have old: "deref (mem m') x = deref (mem m) x" if "deref (mem m) x \<noteq> None" "x \<noteq> ?p" for x
    using frame [OF deref_le_length [OF that(1)] that(2)] .
  have fresh: "deref (mem m) c = None" if "c \<in> set copies" for c
    using c2 [OF that] by (simp add: deref_def)
  have sub: "subtree n (mem m') a = Some t \<and> nodes_of n (mem m') a = nodes_of n (mem m) a"
    if s: "subtree n (mem m) a = Some t" and np: "?p \<notin> set (nodes_of n (mem m) a)" for a n t
  proof -
    have "subtree n (mem m') a = subtree n (mem m) a \<and> nodes_of n (mem m') a = nodes_of n (mem m) a"
    proof (rule subtree_local)
      fix x assume x: "x \<in> set (nodes_of n (mem m) a)"
      with np have "x \<noteq> ?p" by auto
      from old [OF subtree_nodes_live [OF s x] this]
      show "alike (deref (mem m) x) (deref (mem m') x)" by simp
    qed
    with s show ?thesis by simp
  qed
  have ex: "\<exists>copies. length copies = length nodes
              \<and> (\<forall>c \<in> set copies. deref (mem m) c = None)
              \<and> deref (mem m') ?p = Some (P\<lparr>m_childNodes :=
                   take (nat ?r) (m_childNodes P) @ copies @ drop (nat ?r) (m_childNodes P)\<rparr>)"
    using c1 fresh c3 by blast
  from ok root old ex sub show ?thesis by blast
qed

theorem drop_changes_only_the_target_parent_witness:
  "TreeModel_dropMimeData Debug 2 4242 tree_ABC (TreeModel_mimeData 4242 selected_rows) MoveAction
       (- 1) (- 1) (createIndex 2 1 4) = Inr (True, tree_BA_under_C)
   \<and> hasFormat (TreeModel_mimeData 4242 selected_rows) s_mimeType
   \<and> mime_data (TreeModel_mimeData 4242 selected_rows) s_mimeType = [4242, 2, 3, 2]
   \<and> index_in_tree Debug tree_ABC (createIndex 2 1 4)
   \<and> rootNode tree_BA_under_C = rootNode tree_ABC
   \<and> deref (mem tree_BA_under_C) 1 = deref (mem tree_ABC) 1
   \<and> deref (mem tree_BA_under_C) 2 = deref (mem tree_ABC) 2
   \<and> deref (mem tree_BA_under_C) 3 = deref (mem tree_ABC) 3
   \<and> subtree 1 (mem tree_BA_under_C) 3 = Some (Tree [QVariant_String ''B''] [])
   \<and> subtree 1 (mem tree_BA_under_C) 2 = Some (Tree [QVariant_String ''A''] [])"
proof -
  let ?P = "\<lparr>m_childNodes = [], m_itemData = [QVariant_String ''C''], m_parentNode = 1\<rparr>"
  let ?d = "TreeModel_mimeData 4242 selected_rows"
  have run: "TreeModel_dropMimeData Debug 2 4242 tree_ABC ?d MoveAction (- 1) (- 1) (createIndex 2 1 4)
               = Inr (True, tree_BA_under_C)" by code_simp
  have fmt: "hasFormat ?d s_mimeType" by code_simp
  have payload: "mime_data ?d s_mimeType = 4242 # int (length [3, 2 :: nat]) # map int [3, 2] @ []"
    by code_simp
  have live: "deref (mem tree_ABC) (TreeModel_nodeForIndex tree_ABC (createIndex 2 1 4)) = Some ?P"
    by code_simp
  have idx: "index_in_tree Debug tree_ABC (createIndex 2 1 4)" by code_simp
  note T = drop_changes_only_the_target_parent [OF run fmt payload live idx]
  from T have root: "rootNode tree_BA_under_C = rootNode tree_ABC" by blast
  from T have old: "deref (mem tree_ABC) x \<noteq> None \<and> x \<noteq> 4
                     \<longrightarrow> deref (mem tree_BA_under_C) x = deref (mem tree_ABC) x" for x
    unfolding nodeForIndex_C by blast
  from T have sub: "subtree n (mem tree_ABC) a = Some t \<and> 4 \<notin> set (nodes_of n (mem tree_ABC) a)
                     \<longrightarrow> subtree n (mem tree_BA_under_C) a = Some t" for a n t
    unfolding nodeForIndex_C by blast
  have l1: "deref (mem tree_ABC) 1 \<noteq> None \<and> (1 :: nat) \<noteq> 4" by code_simp
  have l2: "deref (mem tree_ABC) 2 \<noteq> None \<and> (2 :: nat) \<noteq> 4" by code_simp
  have l3: "deref (mem tree_ABC) 3 \<noteq> None \<and> (3 :: nat) \<noteq> 4" by code_simp
  have sB: "subtree 1 (mem tree_ABC) 3 = Some (Tree [QVariant_String ''B''] [])
              \<and> 4 \<notin> set (nodes_of 1 (mem tree_ABC) 3)" by code_simp
  have sA: "subtree 1 (mem tree_ABC) 2 = Some (Tree [QVariant_String ''A''] [])
              \<and> 4 \<notin> set (nodes_of 1 (mem tree_ABC) 2)" by code_simp
  have p: "mime_data ?d s_mimeType = [4242, 2, 3, 2]" by code_simp
  from run fmt p idx root old [rule_format, OF l1] old [rule_format, OF l2] old [rule_format, OF l3]
    sub [rule_format, OF sB] sub [rule_format, OF sA]
  show ?thesis by (intro conjI)
qed

text \<open>
  C7, as stated, fails when the drop target lies inside a dragged subtree: a copy of
  "B" dropped onto "B" itself makes the clone a child of the dragged node, whose
  subtree is no longer what it was.
\<close>

theorem drop_onto_dragged_node_changes_it:
  "hasFormat (TreeModel_mimeData 4242 [createIndex 1 0 3]) s_mimeType
   \<and> mime_data (TreeModel_mimeData 4242 [createIndex 1 0 3]) s_mimeType = [4242, 1, 3]
   \<and> TreeModel_dropMimeData Debug 2 4242 tree_ABC (TreeModel_mimeData 4242 [createIndex 1 0 3])
        CopyAction (- 1) (- 1) (createIndex 1 0 3) = Inr (True, tree_B_under_B)
   \<and> TreeNode_childCount (mem tree_ABC) 3 = Inr 0
   \<and> TreeNode_childCount (mem tree_B_under_B) 3 = Inr 1
   \<and> subtree 2 (mem tree_ABC) 3 = Some (Tree [QVariant_String ''B''] [])
   \<and> subtree 2 (mem tree_B_under_B) 3
       = Some (Tree [QVariant_String ''B''] [Tree [QVariant_String ''B''] []])"
  by code_simp

section \<open>Notifications around mutations\<close>

















end
